theory Spec2Isabelle
  imports Complex_Main "HOL-Library.AList"
begin

section \<open>JavaScript numbers\<close>

text \<open>
  A JavaScript number is modelled as an exact real, or one of the three non-finite
  values. Rounding and overflow of IEEE doubles are not modelled, and the two zeros
  are one value: where the source divides by zero the result is an infinity or NaN
  whatever the sign of the zero, and the engine reads such a value only through
  \<open>isFinite\<close>.
\<close>

datatype jsnum = Fin real | PInf | NInf | NaN

instantiation jsnum :: "{plus, minus, uminus, times, inverse, abs, ord}"
begin

fun plus_jsnum :: "jsnum \<Rightarrow> jsnum \<Rightarrow> jsnum" where
  "plus_jsnum (Fin a) (Fin b) = Fin (a + b)"
| "plus_jsnum NaN _ = NaN"
| "plus_jsnum _ NaN = NaN"
| "plus_jsnum PInf NInf = NaN"
| "plus_jsnum NInf PInf = NaN"
| "plus_jsnum PInf _ = PInf"
| "plus_jsnum _ PInf = PInf"
| "plus_jsnum NInf _ = NInf"
| "plus_jsnum _ NInf = NInf"

fun uminus_jsnum :: "jsnum \<Rightarrow> jsnum" where
  "uminus_jsnum (Fin a) = Fin (- a)"
| "uminus_jsnum PInf = NInf"
| "uminus_jsnum NInf = PInf"
| "uminus_jsnum NaN = NaN"

definition minus_jsnum :: "jsnum \<Rightarrow> jsnum \<Rightarrow> jsnum" where
  "minus_jsnum a b = a + (- b)"

fun times_jsnum :: "jsnum \<Rightarrow> jsnum \<Rightarrow> jsnum" where
  "times_jsnum (Fin a) (Fin b) = Fin (a * b)"
| "times_jsnum NaN _ = NaN"
| "times_jsnum _ NaN = NaN"
| "times_jsnum PInf (Fin b) = (if b = 0 then NaN else if 0 < b then PInf else NInf)"
| "times_jsnum NInf (Fin b) = (if b = 0 then NaN else if 0 < b then NInf else PInf)"
| "times_jsnum (Fin a) PInf = (if a = 0 then NaN else if 0 < a then PInf else NInf)"
| "times_jsnum (Fin a) NInf = (if a = 0 then NaN else if 0 < a then NInf else PInf)"
| "times_jsnum PInf PInf = PInf"
| "times_jsnum PInf NInf = NInf"
| "times_jsnum NInf PInf = NInf"
| "times_jsnum NInf NInf = PInf"

fun divide_jsnum :: "jsnum \<Rightarrow> jsnum \<Rightarrow> jsnum" where
  "divide_jsnum (Fin a) (Fin b) =
     (if b = 0 then (if a = 0 then NaN else if 0 < a then PInf else NInf)
      else Fin (a / b))"
| "divide_jsnum NaN _ = NaN"
| "divide_jsnum _ NaN = NaN"
| "divide_jsnum (Fin a) _ = Fin 0"
| "divide_jsnum PInf (Fin b) = (if 0 \<le> b then PInf else NInf)"
| "divide_jsnum NInf (Fin b) = (if 0 \<le> b then NInf else PInf)"
| "divide_jsnum _ _ = NaN"

fun inverse_jsnum :: "jsnum \<Rightarrow> jsnum" where
  "inverse_jsnum (Fin a) = (if a = 0 then PInf else Fin (inverse a))"
| "inverse_jsnum NaN = NaN"
| "inverse_jsnum _ = Fin 0"

fun abs_jsnum :: "jsnum \<Rightarrow> jsnum" where
  "abs_jsnum (Fin a) = Fin \<bar>a\<bar>"
| "abs_jsnum NaN = NaN"
| "abs_jsnum _ = PInf"

fun less_jsnum :: "jsnum \<Rightarrow> jsnum \<Rightarrow> bool" where
  "less_jsnum (Fin a) (Fin b) = (a < b)"
| "less_jsnum NaN _ = False"
| "less_jsnum _ NaN = False"
| "less_jsnum _ NInf = False"
| "less_jsnum PInf _ = False"
| "less_jsnum _ _ = True"

fun less_eq_jsnum :: "jsnum \<Rightarrow> jsnum \<Rightarrow> bool" where
  "less_eq_jsnum (Fin a) (Fin b) = (a \<le> b)"
| "less_eq_jsnum NaN _ = False"
| "less_eq_jsnum _ NaN = False"
| "less_eq_jsnum NInf _ = True"
| "less_eq_jsnum _ PInf = True"
| "less_eq_jsnum _ _ = False"

instance ..

end

text \<open>\<open>isFinite\<close>, truthiness of a number, and strict equality (NaN equals nothing).\<close>

fun isFinite :: "jsnum \<Rightarrow> bool" where
  "isFinite (Fin a) = True"
| "isFinite _ = False"

fun truthy :: "jsnum \<Rightarrow> bool" where
  "truthy (Fin a) = (a \<noteq> 0)"
| "truthy NaN = False"
| "truthy _ = True"

definition strict_eq :: "jsnum \<Rightarrow> jsnum \<Rightarrow> bool" where
  "strict_eq a b = (a = b \<and> a \<noteq> NaN)"

fun Math_min :: "jsnum \<Rightarrow> jsnum \<Rightarrow> jsnum" where
  "Math_min NaN _ = NaN"
| "Math_min _ NaN = NaN"
| "Math_min a b = (if a \<le> b then a else b)"

fun Math_max :: "jsnum \<Rightarrow> jsnum \<Rightarrow> jsnum" where
  "Math_max NaN _ = NaN"
| "Math_max _ NaN = NaN"
| "Math_max a b = (if a \<le> b then b else a)"

fun Math_sqrt :: "jsnum \<Rightarrow> jsnum" where
  "Math_sqrt (Fin a) = (if a < 0 then NaN else Fin (sqrt a))"
| "Math_sqrt PInf = PInf"
| "Math_sqrt _ = NaN"

text \<open>\<open>Math.pow(v, 2)\<close>, the only power the engine takes.\<close>

definition Math_pow2 :: "jsnum \<Rightarrow> jsnum" where
  "Math_pow2 v = v * v"

fun Math_ceil :: "jsnum \<Rightarrow> jsnum" where
  "Math_ceil (Fin a) = Fin (of_int \<lceil>a\<rceil>)"
| "Math_ceil v = v"

fun Math_sign :: "jsnum \<Rightarrow> jsnum" where
  "Math_sign (Fin a) = Fin (sgn a)"
| "Math_sign PInf = Fin 1"
| "Math_sign NInf = Fin (- 1)"
| "Math_sign NaN = NaN"

text \<open>
  \<open>v >> s\<close>: the operand is converted with ToInt32 (truncate, wrap modulo \<open>2^32\<close>
  into the signed range; non-finite values give 0), then shifted arithmetically.
\<close>

fun ToInt32 :: "jsnum \<Rightarrow> int" where
  "ToInt32 (Fin a) =
     (let t = (if a < 0 then \<lceil>a\<rceil> else \<lfloor>a\<rfloor>); m = t mod 4294967296
      in if 2147483648 \<le> m then m - 4294967296 else m)"
| "ToInt32 _ = 0"

definition sar :: "jsnum \<Rightarrow> nat \<Rightarrow> int" where
  "sar v s = ToInt32 v div 2 ^ s"

section \<open>Numbers as strings\<close>

text \<open>The decimal text JavaScript's string concatenation gives an integer.\<close>

definition digit :: "nat \<Rightarrow> char" where
  "digit d =
     (if d = 0 then CHR ''0'' else if d = 1 then CHR ''1'' else if d = 2 then CHR ''2''
      else if d = 3 then CHR ''3'' else if d = 4 then CHR ''4'' else if d = 5 then CHR ''5''
      else if d = 6 then CHR ''6'' else if d = 7 then CHR ''7'' else if d = 8 then CHR ''8''
      else CHR ''9'')"

fun digits :: "nat \<Rightarrow> string" where
  "digits n = (if n < 10 then [digit n] else digits (n div 10) @ [digit (n mod 10)])"

declare digits.simps [simp del]

definition toString :: "int \<Rightarrow> string" where
  "toString i = (if i < 0 then CHR ''-'' # digits (nat (- i)) else digits (nat i))"

fun join :: "string list \<Rightarrow> string" where
  "join [] = []"
| "join [s] = s"
| "join (s # t # ss) = s @ CHR '','' # join (t # ss)"

section \<open>Bodies\<close>

text \<open>
  The four body classes share one record; a field a class does not have keeps the
  value \<open>blank\<close> gives it, which is how JavaScript reads it (\<open>undefined\<close> is
  falsy). Fields the engine never reads (\<open>size\<close>, \<open>userData\<close>) are left out.
  A body object is identified by its \<open>id\<close>: \<open>getNextId\<close> numbers the objects
  as they are made, so \<open>body.id\<close> of a reference is the reference itself.
\<close>

datatype body_type = STATIC | PLAYER | BOUNCE | BULLET

record vec =
  xc :: jsnum
  yc :: jsnum

record rect =
  rmin :: vec
  rmax :: vec

record coefs =
  ab :: jsnum
  ba :: jsnum
  ca :: jsnum
  cb :: jsnum

type_synonym ref = nat

record body =
  btype :: body_type
  position :: vec
  bounds :: rect
  regions :: "string list option"
  regionsString :: "string option"
  isUpdated :: bool
  isSensor :: bool
  normalBounds :: rect
  gravity :: jsnum
  moveDirectionY :: jsnum
  moveSpeed :: jsnum
  jumpDistance :: jsnum
  jumpCoef :: jsnum
  lastGroundPositionY :: jsnum
  forceX :: jsnum
  isOnGround :: bool
  jumpInitDir :: jsnum
  jumpTimer :: "jsnum option"
  fallTimer :: "jsnum option"
  force :: vec
  reboundSpeed :: jsnum
  countCollisionsFixX :: int
  countCollisionsFixY :: int
  prevPosition :: vec
  ownerId :: ref
  longOfLife :: "jsnum option"
  long :: jsnum
  equationCoefs :: coefs

definition vzero :: vec where
  "vzero = \<lparr>xc = Fin 0, yc = Fin 0\<rparr>"

definition rzero :: rect where
  "rzero = \<lparr>rmin = vzero, rmax = vzero\<rparr>"

definition blank :: body where
  "blank = \<lparr>btype = STATIC, position = vzero, bounds = rzero, regions = None,
     regionsString = None, isUpdated = False, isSensor = False, normalBounds = rzero,
     gravity = Fin 0, moveDirectionY = Fin 0, moveSpeed = Fin 0, jumpDistance = Fin 0,
     jumpCoef = Fin 0, lastGroundPositionY = Fin 0, forceX = Fin 0, isOnGround = False,
     jumpInitDir = Fin 0, jumpTimer = None, fallTimer = None, force = vzero,
     reboundSpeed = Fin 0, countCollisionsFixX = 0, countCollisionsFixY = 0,
     prevPosition = vzero, ownerId = 0, longOfLife = None, long = Fin 0,
     equationCoefs = \<lparr>ab = Fin 0, ba = Fin 0, ca = Fin 0, cb = Fin 0\<rparr>\<rparr>"

definition BOUNCE_FIXES_LIMIT_X :: int where
  "BOUNCE_FIXES_LIMIT_X = 3"

definition BOUNCE_FIXES_LIMIT_Y :: int where
  "BOUNCE_FIXES_LIMIT_Y = 3"

subsection \<open>Static body\<close>

definition BodyStatic :: "jsnum \<Rightarrow> jsnum \<Rightarrow> jsnum \<Rightarrow> jsnum \<Rightarrow> bool \<Rightarrow> body" where
  "BodyStatic x y width height sensor =
     (let halfWidth = width / Fin 2; halfHeight = height / Fin 2
      in blank\<lparr>btype := STATIC, position := \<lparr>xc = x, yc = y\<rparr>, isSensor := sensor,
           bounds := \<lparr>rmin = \<lparr>xc = - halfWidth + x, yc = - halfHeight + y\<rparr>,
                      rmax = \<lparr>xc = halfWidth + x, yc = halfHeight + y\<rparr>\<rparr>\<rparr>)"

subsection \<open>Bullet body\<close>

definition Bullet_updateBounds :: "body \<Rightarrow> body" where
  "Bullet_updateBounds b =
     b\<lparr>bounds :=
        \<lparr>rmin = \<lparr>xc = Math_min (xc (position b)) (xc (prevPosition b)),
                  yc = Math_min (yc (position b)) (yc (prevPosition b))\<rparr>,
         rmax = \<lparr>xc = Math_max (xc (position b)) (xc (prevPosition b)),
                  yc = Math_max (yc (position b)) (yc (prevPosition b))\<rparr>\<rparr>\<rparr>"

text \<open>
  The constructor's options: position, force in points per second, and the optional
  \<open>ownerId\<close> and \<open>longOfLife\<close> (\<open>None\<close> when the host leaves them out).
\<close>

definition BodyBullet :: "jsnum \<Rightarrow> jsnum \<Rightarrow> vec \<Rightarrow> ref option \<Rightarrow> jsnum option \<Rightarrow> body" where
  "BodyBullet x y f owner lol =
     (let fo = \<lparr>xc = xc f / Fin 1000, yc = yc f / Fin 1000\<rparr>;
          a = - yc fo;
          b = xc fo;
          c = x * yc fo - y * xc fo
      in Bullet_updateBounds
          (blank\<lparr>btype := BULLET, position := \<lparr>xc = x, yc = y\<rparr>,
             prevPosition := \<lparr>xc = x, yc = y\<rparr>, force := fo,
             ownerId := (case owner of None \<Rightarrow> 0 | Some i \<Rightarrow> i),
             isUpdated := True,
             longOfLife := (case lol of None \<Rightarrow> None
                            | Some l \<Rightarrow> if truthy l then Some l else None),
             long := Fin 0,
             equationCoefs := \<lparr>ab = a / b, ba = b / a, ca = c / a, cb = c / b\<rparr>\<rparr>))"

text \<open>\<open>update(delta, bodiesToRemove)\<close>; \<open>self\<close> is the reference of the bullet.\<close>

definition Bullet_update :: "jsnum \<Rightarrow> ref \<Rightarrow> body \<Rightarrow> ref list \<Rightarrow> body \<times> ref list" where
  "Bullet_update delta self b bodiesToRemove =
     (let b1 = b\<lparr>prevPosition := position b\<rparr>;
          moveX = xc (force b1) * delta;
          moveY = yc (force b1) * delta;
          b2 = b1\<lparr>position := \<lparr>xc = xc (position b1) + moveX, yc = yc (position b1) + moveY\<rparr>\<rparr>
      in case longOfLife b2 of
           None \<Rightarrow> (Bullet_updateBounds b2, bodiesToRemove)
         | Some l \<Rightarrow>
             (let b3 = b2\<lparr>long := long b2 + Math_sqrt (moveX * moveX + moveY * moveY)\<rparr>
              in if l \<le> long b3 then (b3, bodiesToRemove @ [self])
                 else (Bullet_updateBounds b3, bodiesToRemove)))"

subsection \<open>Bounce body\<close>

definition updateBounds :: "body \<Rightarrow> body" where
  "updateBounds b =
     b\<lparr>bounds :=
        \<lparr>rmin = \<lparr>xc = xc (rmin (normalBounds b)) + xc (position b),
                  yc = yc (rmin (normalBounds b)) + yc (position b)\<rparr>,
         rmax = \<lparr>xc = xc (rmax (normalBounds b)) + xc (position b),
                  yc = yc (rmax (normalBounds b)) + yc (position b)\<rparr>\<rparr>\<rparr>"

definition BodyBounce :: "jsnum \<Rightarrow> jsnum \<Rightarrow> jsnum \<Rightarrow> jsnum \<Rightarrow> vec \<Rightarrow> jsnum \<Rightarrow> body" where
  "BodyBounce x y width height f g =
     (let fo = \<lparr>xc = xc f / Fin 1000, yc = yc f / Fin 1000\<rparr>;
          halfWidth = width / Fin 2;
          halfHeight = height / Fin 2
      in updateBounds
          (blank\<lparr>btype := BOUNCE, position := \<lparr>xc = x, yc = y\<rparr>, force := fo,
             gravity := g,
             reboundSpeed := (if Fin 0 < yc fo then - yc fo else yc fo),
             moveDirectionY := Fin 0, isUpdated := False,
             countCollisionsFixX := 0, countCollisionsFixY := 0,
             normalBounds := \<lparr>rmin = \<lparr>xc = - halfWidth, yc = - halfHeight\<rparr>,
                              rmax = \<lparr>xc = halfWidth, yc = halfHeight\<rparr>\<rparr>\<rparr>))"

text \<open>\<open>setPosition\<close> is the same method in the bounce and the player class.\<close>

definition setPosition :: "vec \<Rightarrow> body \<Rightarrow> body" where
  "setPosition p b = b\<lparr>position := \<lparr>xc = xc p, yc = yc p\<rparr>, isUpdated := True\<rparr>"

definition Bounce_update :: "jsnum \<Rightarrow> body \<Rightarrow> body" where
  "Bounce_update delta b =
     (let b1 = (if countCollisionsFixX b < BOUNCE_FIXES_LIMIT_X
                then b\<lparr>position := (position b)\<lparr>xc := xc (position b) + xc (force b) * delta\<rparr>,
                       isUpdated := True\<rparr>
                else b);
          b2 = (if countCollisionsFixY b1 < BOUNCE_FIXES_LIMIT_Y
                then (let fy = yc (force b1) + gravity b1 * delta
                      in b1\<lparr>position := (position b1)\<lparr>yc := yc (position b1) + yc (force b1) * delta\<rparr>,
                             force := (force b1)\<lparr>yc := fy\<rparr>,
                             moveDirectionY := (if Fin 0 < fy then Fin 1 else Fin (- 1)),
                             isUpdated := True\<rparr>)
                else b1)
      in if isUpdated b2 then updateBounds b2 else b2)"

definition Bounce_updateCollision :: "vec \<Rightarrow> body \<Rightarrow> body" where
  "Bounce_updateCollision correction b =
     (let b1 = (if countCollisionsFixX b \<le> BOUNCE_FIXES_LIMIT_X
                then (if countCollisionsFixX b = BOUNCE_FIXES_LIMIT_X
                      then b\<lparr>force := (force b)\<lparr>xc := Fin 0\<rparr>\<rparr>
                      else (let fx = xc (force b) * (Fin (1 / 2) - Fin (1 / 10) * Fin (of_int (countCollisionsFixX b)));
                                fx' = (if \<not> strict_eq (xc correction) (Fin 0) \<and>
                                          \<not> strict_eq (Math_sign (xc correction)) (Math_sign fx)
                                       then fx * Fin (- 1) else fx)
                            in b\<lparr>force := (force b)\<lparr>xc := fx'\<rparr>,
                                 countCollisionsFixX := countCollisionsFixX b + 1\<rparr>))
                else b)
      in if \<not> strict_eq (yc correction) (Fin 0) \<and> countCollisionsFixY b1 \<le> BOUNCE_FIXES_LIMIT_Y
         then (let b2 = (if yc correction < Fin 0
                         then (if countCollisionsFixY b1 = BOUNCE_FIXES_LIMIT_Y
                               then b1\<lparr>force := (force b1)\<lparr>yc := Fin 0\<rparr>, moveDirectionY := Fin 0\<rparr>
                               else (let rs = reboundSpeed b1 * (Fin (1 / 2) - Fin (15 / 100) * Fin (of_int (countCollisionsFixY b1)))
                                     in b1\<lparr>reboundSpeed := rs, force := (force b1)\<lparr>yc := rs\<rparr>,
                                           countCollisionsFixY := countCollisionsFixY b1 + 1\<rparr>))
                         else b1)
               in if Fin 0 < yc correction then b2\<lparr>force := (force b2)\<lparr>yc := yc (force b2) * Fin (- 1)\<rparr>\<rparr>
                  else b2)
         else b1)"

subsection \<open>Player body\<close>

text \<open>The optional \<open>moveSpeed\<close> and \<open>jumpDistance\<close> are \<open>None\<close> when left out.\<close>

definition BodyPlayer ::
  "jsnum \<Rightarrow> jsnum \<Rightarrow> jsnum \<Rightarrow> jsnum \<Rightarrow> jsnum option \<Rightarrow> jsnum option \<Rightarrow> jsnum \<Rightarrow> body" where
  "BodyPlayer x y width height speed jump g =
     (let jd = (case jump of None \<Rightarrow> height * Fin (11 / 10)
                | Some j \<Rightarrow> if truthy j then j else height * Fin (11 / 10));
          halfWidth = width / Fin 2;
          halfHeight = height / Fin 2
      in updateBounds
          (blank\<lparr>btype := PLAYER, position := \<lparr>xc = x, yc = y\<rparr>,
             moveSpeed := (case speed of None \<Rightarrow> Fin (4 / 10)
                           | Some s \<Rightarrow> if truthy s then s / Fin 1000 else Fin (4 / 10)),
             jumpDistance := jd, gravity := g, jumpCoef := Math_sqrt (jd / g),
             lastGroundPositionY := (if truthy y then y else Fin 0),
             forceX := Fin 0, moveDirectionY := Fin 0, isOnGround := False,
             jumpInitDir := Fin 0, isUpdated := False, jumpTimer := None, fallTimer := None,
             normalBounds := \<lparr>rmin = \<lparr>xc = - halfWidth, yc = - halfHeight\<rparr>,
                              rmax = \<lparr>xc = halfWidth, yc = halfHeight\<rparr>\<rparr>\<rparr>))"

definition Player_update :: "jsnum \<Rightarrow> body \<Rightarrow> body" where
  "Player_update delta b =
     (let b1 = (if truthy (forceX b)
                then (let c = b\<lparr>isUpdated := True,
                                 position := (position b)\<lparr>xc := xc (position b) + forceX b * delta\<rparr>\<rparr>
                      in if isOnGround c
                         then c\<lparr>position := (position c)\<lparr>yc := yc (position c) + Fin 1\<rparr>,
                                isOnGround := False\<rparr>
                         else c)
                else b);
          b2 = b1\<lparr>moveDirectionY := Fin 0\<rparr>;
          b3 = (case jumpTimer b2 of
                  None \<Rightarrow> b2
                | Some t \<Rightarrow>
                    (let t' = t + delta
                     in b2\<lparr>jumpTimer := Some t',
                           position := (position b2)\<lparr>yc := lastGroundPositionY b2
                              + gravity b2 * Math_pow2 (t' - jumpCoef b2) - jumpDistance b2\<rparr>,
                           moveDirectionY := (if Fin 0 < t' - jumpCoef b2 then Fin 1 else Fin (- 1)),
                           isUpdated := True\<rparr>));
          b4 = (case fallTimer b3 of
                  None \<Rightarrow> b3
                | Some t \<Rightarrow>
                    if \<not> isOnGround b3
                    then (let t' = t + delta
                          in b3\<lparr>fallTimer := Some t',
                                position := (position b3)\<lparr>yc := lastGroundPositionY b3
                                   + gravity b3 * Math_pow2 t'\<rparr>,
                                moveDirectionY := Fin 1,
                                isUpdated := True\<rparr>)
                    else b3)
      in if isUpdated b4 then updateBounds b4 else b4)"

definition Player_updateCollision :: "vec \<Rightarrow> body \<Rightarrow> body" where
  "Player_updateCollision correction b =
     (let b1 = (if \<not> strict_eq (xc correction) (Fin 0) then b\<lparr>jumpInitDir := Fin 0\<rparr> else b);
          b2 = (if yc correction < Fin 0
                then b1\<lparr>isOnGround := True, jumpInitDir := Fin 0, jumpTimer := None,
                        fallTimer := None\<rparr>
                else b1)
      in if Fin 0 < yc correction then b2\<lparr>jumpTimer := None, jumpInitDir := Fin 0\<rparr> else b2)"

definition Player_move :: "jsnum \<Rightarrow> body \<Rightarrow> body" where
  "Player_move dir b =
     (let b1 = b\<lparr>forceX := moveSpeed b * dir\<rparr>
      in if \<not> isOnGround b1 \<and> \<not> strict_eq dir (jumpInitDir b1)
         then b1\<lparr>jumpInitDir := Fin 0, forceX := forceX b1 / Fin 2\<rparr>
         else b1)"

definition Player_stop :: "body \<Rightarrow> body" where
  "Player_stop b = b\<lparr>forceX := Fin 0\<rparr>"

definition Player_jump :: "body \<Rightarrow> body" where
  "Player_jump b =
     (if \<not> isOnGround b then b
      else (let b1 = b\<lparr>jumpTimer := Some (Fin 0), lastGroundPositionY := yc (position b)\<rparr>;
                b2 = (if forceX b1 < Fin 0 then b1\<lparr>jumpInitDir := Fin (- 1)\<rparr> else b1);
                b3 = (if Fin 0 < forceX b2 then b2\<lparr>jumpInitDir := Fin 1\<rparr> else b2)
            in b3\<lparr>isOnGround := False\<rparr>))"

section \<open>Broad phase: the grid\<close>

text \<open>
  \<open>pairs\<close> is a JavaScript object with string keys: a new key goes to the end, an
  existing key keeps its place, \<open>delete\<close> removes it, and \<open>for in\<close> walks the keys
  in that order. This is an association list with \<open>AList.update\<close> and
  \<open>AList.delete\<close>. \<open>hash\<close> is read by key only and is a map.
  A function that can dereference \<open>undefined\<close> returns \<open>None\<close> where the source
  throws a TypeError.
\<close>

record pair =
  pid :: string
  bodyA :: ref
  bodyB :: ref
  count :: int

record grid =
  pairs :: "(string \<times> pair) list"
  hash :: "string \<Rightarrow> ref list option"

definition Grid :: grid where
  "Grid = \<lparr>pairs = [], hash = (\<lambda>r. None)\<rparr>"

fun forEach :: "('a \<Rightarrow> 's \<Rightarrow> 's option) \<Rightarrow> 'a list \<Rightarrow> 's \<Rightarrow> 's option" where
  "forEach f [] s = Some s"
| "forEach f (v # vs) s = (case f v s of None \<Rightarrow> None | Some s' \<Rightarrow> forEach f vs s')"

definition regionsShift :: nat where
  "regionsShift = 9"

definition regionKey :: "int \<Rightarrow> int \<Rightarrow> string" where
  "regionKey cx cy = toString cx @ CHR '':'' # toString cy"

definition getRegions :: "rect \<Rightarrow> string list" where
  "getRegions bnds =
     (let sx = sar (xc (rmin bnds)) regionsShift;
          sy = sar (yc (rmin bnds)) regionsShift;
          ex = sar (xc (rmax bnds)) regionsShift;
          ey = sar (yc (rmax bnds)) regionsShift
      in concat (map (\<lambda>cy. map (\<lambda>cx. regionKey cx cy) [sx..ex]) [sy..ey]))"

definition getPairId :: "ref \<Rightarrow> ref \<Rightarrow> string" where
  "getPairId bodyAId bodyBId =
     (if bodyAId < bodyBId
      then toString (int bodyAId) @ CHR '':'' # toString (int bodyBId)
      else toString (int bodyBId) @ CHR '':'' # toString (int bodyAId))"

definition canCollide :: "(ref \<Rightarrow> body) \<Rightarrow> ref \<Rightarrow> ref \<Rightarrow> bool" where
  "canCollide h a b =
     (if btype (h a) = btype (h b) then False
      else if btype (h a) = BOUNCE \<and> btype (h b) \<noteq> STATIC then False
      else if btype (h b) = BOUNCE \<and> btype (h a) \<noteq> STATIC then False
      else if btype (h a) = BULLET \<and> ownerId (h a) = b then False
      else if btype (h b) = BULLET \<and> ownerId (h b) = a then False
      else True)"

text \<open>\<open>if(this.hash[region]) this.hash[region].push(body); else this.hash[region] = [body]\<close>\<close>

definition hashPush :: "ref \<Rightarrow> string \<Rightarrow> grid \<Rightarrow> grid" where
  "hashPush a region g =
     g\<lparr>hash := (hash g)(region \<mapsto> (case hash g region of None \<Rightarrow> [a] | Some l \<Rightarrow> l @ [a]))\<rparr>"

text \<open>One turn of the inner loop of \<open>_addPairs\<close>, for \<open>otherBody\<close>.\<close>

definition addPair :: "(ref \<Rightarrow> body) \<Rightarrow> ref \<Rightarrow> ref \<Rightarrow> (string \<times> pair) list \<Rightarrow> (string \<times> pair) list" where
  "addPair h a other ps =
     (if other = a then ps
      else if \<not> canCollide h a other then ps
      else (let pairId = getPairId a other
            in case map_of ps pairId of
                 Some p \<Rightarrow> AList.update pairId (p\<lparr>count := count p + 1\<rparr>) ps
               | None \<Rightarrow> AList.update pairId \<lparr>pid = pairId, bodyA = a, bodyB = other, count = 1\<rparr> ps))"

definition Grid_addPairs :: "(ref \<Rightarrow> body) \<Rightarrow> ref \<Rightarrow> string list option \<Rightarrow> grid \<Rightarrow> grid option" where
  "Grid_addPairs h a regionsArg g =
     (case (case regionsArg of Some rs \<Rightarrow> Some rs | None \<Rightarrow> regions (h a)) of
        None \<Rightarrow> None
      | Some rs \<Rightarrow>
          forEach (\<lambda>region g'.
              case hash g' region of
                None \<Rightarrow> None
              | Some regionBodies \<Rightarrow> Some (g'\<lparr>pairs := fold (addPair h a) regionBodies (pairs g')\<rparr>))
            rs g)"

text \<open>One turn of the inner loop of \<open>_removePairs\<close>.\<close>

definition removePair :: "ref \<Rightarrow> ref \<Rightarrow> (string \<times> pair) list \<Rightarrow> (string \<times> pair) list" where
  "removePair a other ps =
     (let pairId = getPairId a other
      in case map_of ps pairId of
           None \<Rightarrow> ps
         | Some p \<Rightarrow>
             if count p = 1 then AList.delete pairId ps
             else AList.update pairId (p\<lparr>count := count p - 1\<rparr>) ps)"

definition Grid_removePairs :: "(ref \<Rightarrow> body) \<Rightarrow> ref \<Rightarrow> string list option \<Rightarrow> grid \<Rightarrow> grid option" where
  "Grid_removePairs h a regionsArg g =
     (case (case regionsArg of Some rs \<Rightarrow> Some rs | None \<Rightarrow> regions (h a)) of
        None \<Rightarrow> None
      | Some rs \<Rightarrow>
          forEach (\<lambda>region g'.
              case hash g' region of
                None \<Rightarrow> None
              | Some regionBodies \<Rightarrow> Some (g'\<lparr>pairs := fold (removePair a) regionBodies (pairs g')\<rparr>))
            rs g)"

definition Grid_addBody :: "ref \<Rightarrow> (ref \<Rightarrow> body) \<times> grid \<Rightarrow> ((ref \<Rightarrow> body) \<times> grid) option" where
  "Grid_addBody a s =
     (case s of (h, g) \<Rightarrow>
        (let rs = getRegions (bounds (h a));
             b1 = (h a)\<lparr>regions := Some rs\<rparr>;
             b2 = (if btype b1 \<noteq> STATIC then b1\<lparr>regionsString := Some (join rs)\<rparr> else b1);
             h' = h(a := b2);
             g1 = fold (hashPush a) rs g
         in case Grid_addPairs h' a None g1 of
              None \<Rightarrow> None
            | Some g2 \<Rightarrow> Some (h', g2)))"

text \<open>
  \<open>hash.indexOf(body)\<close> followed by \<open>splice\<close> takes the first occurrence out:
  \<open>remove1\<close>.
\<close>

definition Grid_updateBody ::
  "ref \<Rightarrow> string list \<Rightarrow> string \<Rightarrow> (ref \<Rightarrow> body) \<times> grid \<Rightarrow> ((ref \<Rightarrow> body) \<times> grid) option" where
  "Grid_updateBody a newRegions rString s =
     (case s of (h, g) \<Rightarrow>
        (case regions (h a) of
           None \<Rightarrow> None
         | Some oldRegions \<Rightarrow>
             (let regionsToRemove = filter (\<lambda>v. v \<notin> set newRegions) oldRegions;
                  regionsToAdd = filter (\<lambda>v. v \<notin> set oldRegions) newRegions
              in case (if regionsToRemove \<noteq> []
                       then (case forEach (\<lambda>region g'.
                                    case hash g' region of
                                      None \<Rightarrow> None
                                    | Some l \<Rightarrow> Some (g'\<lparr>hash := (hash g')(region \<mapsto> remove1 a l)\<rparr>))
                                  regionsToRemove g of
                               None \<Rightarrow> None
                             | Some g1 \<Rightarrow> Grid_removePairs h a (Some regionsToRemove) g1)
                       else Some g) of
                   None \<Rightarrow> None
                 | Some g2 \<Rightarrow>
                     (case (if regionsToAdd \<noteq> []
                            then Grid_addPairs h a (Some regionsToAdd)
                                   (fold (hashPush a) regionsToAdd g2)
                            else Some g2) of
                        None \<Rightarrow> None
                      | Some g3 \<Rightarrow>
                          Some (h(a := (h a)\<lparr>regions := Some newRegions,
                                              regionsString := Some rString\<rparr>), g3)))))"

definition Grid_removeBody :: "ref \<Rightarrow> (ref \<Rightarrow> body) \<times> grid \<Rightarrow> ((ref \<Rightarrow> body) \<times> grid) option" where
  "Grid_removeBody a s =
     (case s of (h, g) \<Rightarrow>
        (case regions (h a) of
           None \<Rightarrow> Some (h, g)
         | Some rs \<Rightarrow>
             (let g1 = fold (\<lambda>region g'.
                           case hash g' region of
                             None \<Rightarrow> g'
                           | Some l \<Rightarrow> g'\<lparr>hash := (hash g')(region \<mapsto> remove1 a l)\<rparr>)
                         rs g
              in case Grid_removePairs h a None g1 of
                   None \<Rightarrow> None
                 | Some g2 \<Rightarrow>
                     Some (h(a := (h a)\<lparr>regions := None, regionsString := None\<rparr>), g2))))"

text \<open>One turn of the loop of \<open>Grid.update\<close>.\<close>

definition Grid_update_body :: "ref \<Rightarrow> (ref \<Rightarrow> body) \<times> grid \<Rightarrow> ((ref \<Rightarrow> body) \<times> grid) option" where
  "Grid_update_body a s =
     (case s of (h, g) \<Rightarrow>
        if regions (h a) = None then Grid_addBody a (h, g)
        else if btype (h a) = STATIC then Some (h, g)
        else if isUpdated (h a)
        then (let h1 = (if btype (h a) \<noteq> BULLET then h(a := (h a)\<lparr>isUpdated := False\<rparr>) else h);
                  rs = getRegions (bounds (h1 a));
                  rString = join rs
              in if Some rString \<noteq> regionsString (h1 a)
                 then Grid_updateBody a rs rString (h1, g)
                 else Some (h1, g))
        else Some (h, g))"

definition Grid_update :: "ref list \<Rightarrow> (ref \<Rightarrow> body) \<times> grid \<Rightarrow> ((ref \<Rightarrow> body) \<times> grid) option" where
  "Grid_update bs s = forEach Grid_update_body bs s"

section \<open>The engine\<close>

datatype sensor =
    OutWorld ref
  | Overlap ref ref
  | Hit ref ref vec

record isect =
  width :: jsnum
  height :: jsnum

record collision =
  colA :: ref
  colB :: ref
  intersection :: isect

record hitResult =
  point :: vec
  halfSumm :: jsnum
  target :: "ref option"

datatype axis = AxisX | AxisY

definition isOutOfRegion :: "vec \<Rightarrow> rect \<Rightarrow> bool" where
  "isOutOfRegion v bnds =
     (xc v < xc (rmin bnds) \<or> xc (rmax bnds) < xc v \<or>
      yc v < yc (rmin bnds) \<or> yc (rmax bnds) < yc v)"

definition getIntersection :: "rect \<Rightarrow> rect \<Rightarrow> isect" where
  "getIntersection boundsA boundsB =
     (let maxMinX = Math_max (xc (rmin boundsA)) (xc (rmin boundsB));
          minMaxX = Math_min (xc (rmax boundsA)) (xc (rmax boundsB));
          maxMinY = Math_max (yc (rmin boundsA)) (yc (rmin boundsB));
          minMaxY = Math_min (yc (rmax boundsA)) (yc (rmax boundsB))
      in \<lparr>width = minMaxX - maxMinX, height = minMaxY - maxMinY\<rparr>)"

fun setAxis :: "axis \<Rightarrow> jsnum \<Rightarrow> vec \<Rightarrow> vec" where
  "setAxis AxisX v p = p\<lparr>xc := v\<rparr>"
| "setAxis AxisY v p = p\<lparr>yc := v\<rparr>"

definition handlingLineIntersect ::
  "jsnum \<Rightarrow> jsnum \<Rightarrow> jsnum \<Rightarrow> jsnum \<Rightarrow> jsnum \<Rightarrow> jsnum \<Rightarrow> jsnum \<Rightarrow> axis \<Rightarrow> axis \<Rightarrow> ref
     \<Rightarrow> hitResult \<Rightarrow> hitResult" where
  "handlingLineIntersect input a b minOutputValue maxOutputValue prevInput prevOutput
       inputAxis outputAxis tgt result =
     (if \<not> isFinite a \<or> \<not> isFinite b then result
      else (let output = - a * input - b
            in if output \<le> minOutputValue \<or> maxOutputValue \<le> output then result
               else (let hs = \<bar>output - prevOutput\<bar> + \<bar>input - prevInput\<bar>
                     in if hs < halfSumm result
                        then result\<lparr>point := setAxis outputAxis output
                                                 (setAxis inputAxis input (point result)),
                                     halfSumm := hs, target := Some tgt\<rparr>
                        else result)))"

subsection \<open>Stage 1: updatePositions\<close>

definition updatePositions_body ::
  "jsnum \<Rightarrow> rect \<Rightarrow> ref \<Rightarrow> (ref \<Rightarrow> body) \<times> ref list \<times> sensor list
     \<Rightarrow> (ref \<Rightarrow> body) \<times> ref list \<times> sensor list" where
  "updatePositions_body delta worldBounds a s =
     (case s of (h, bodiesToRemove, sensors) \<Rightarrow>
        if btype (h a) = STATIC then s
        else if a \<in> set bodiesToRemove then s
        else (let (h1, rem1) =
                    (case btype (h a) of
                       PLAYER \<Rightarrow> (h(a := Player_update delta (h a)), bodiesToRemove)
                     | BOUNCE \<Rightarrow> (h(a := Bounce_update delta (h a)), bodiesToRemove)
                     | BULLET \<Rightarrow>
                         (let (b', rem') = Bullet_update delta a (h a) bodiesToRemove
                          in (h(a := b'), rem'))
                     | STATIC \<Rightarrow> (h, bodiesToRemove))
              in if isOutOfRegion (position (h1 a)) worldBounds
                 then (h1, rem1 @ [a], sensors @ [OutWorld a])
                 else (h1, rem1, sensors)))"

definition updatePositions ::
  "jsnum \<Rightarrow> ref list \<Rightarrow> rect \<Rightarrow> (ref \<Rightarrow> body) \<times> ref list \<times> sensor list
     \<Rightarrow> (ref \<Rightarrow> body) \<times> ref list \<times> sensor list" where
  "updatePositions delta bs worldBounds s = fold (updatePositions_body delta worldBounds) bs s"

subsection \<open>Stage 2: removeBodies\<close>

text \<open>The state is the store, the world's list of bodies and the grid; the caller's
  \<open>bodiesToRemove\<close> is emptied afterwards (\<open>bodiesToRemove.length = 0\<close>).\<close>

definition removeBodies_body ::
  "ref \<Rightarrow> (ref \<Rightarrow> body) \<times> ref list \<times> grid \<Rightarrow> ((ref \<Rightarrow> body) \<times> ref list \<times> grid) option" where
  "removeBodies_body a s =
     (case s of (h, bs, g) \<Rightarrow>
        (case Grid_removeBody a (h, g) of
           None \<Rightarrow> None
         | Some (h', g') \<Rightarrow> Some (h', remove1 a bs, g')))"

definition removeBodies ::
  "ref list \<Rightarrow> (ref \<Rightarrow> body) \<times> ref list \<times> grid \<Rightarrow> ((ref \<Rightarrow> body) \<times> ref list \<times> grid) option" where
  "removeBodies bodiesToRemove s = forEach removeBodies_body bodiesToRemove s"

subsection \<open>Stage 4: detectCollisions\<close>

text \<open>
  \<open>bulletsTargets\<close> is an object keyed by bullet ids; \<open>for in\<close> walks integer keys
  in ascending order, so the association list is kept sorted by key.
\<close>

fun bulletsTargets_push :: "ref \<Rightarrow> ref \<Rightarrow> (ref \<times> ref list) list \<Rightarrow> (ref \<times> ref list) list" where
  "bulletsTargets_push k v [] = [(k, [v])]"
| "bulletsTargets_push k v ((k', vs) # rest) =
     (if k = k' then (k', vs @ [v]) # rest
      else if k < k' then (k, [v]) # (k', vs) # rest
      else (k', vs) # bulletsTargets_push k v rest)"

definition detect_pair ::
  "(ref \<Rightarrow> body) \<Rightarrow> string \<times> pair
     \<Rightarrow> (ref \<times> ref list) list \<times> collision list \<times> sensor list
     \<Rightarrow> (ref \<times> ref list) list \<times> collision list \<times> sensor list" where
  "detect_pair h kp s =
     (case s of (bulletsTargets, collisions, sensors) \<Rightarrow>
        (let a = bodyA (snd kp);
             b = bodyB (snd kp);
             i = getIntersection (bounds (h a)) (bounds (h b))
         in if width i < Fin 0 \<or> height i < Fin 0 then s
            else if isSensor (h a) \<or> isSensor (h b)
            then (bulletsTargets, collisions, sensors @ [Overlap a b])
            else if btype (h a) = BULLET \<or> btype (h b) = BULLET
            then (let bodyBullet = (if btype (h a) = BULLET then a else b);
                      bodyHitted = (if btype (h a) = BULLET then b else a)
                  in (bulletsTargets_push bodyBullet bodyHitted bulletsTargets, collisions, sensors))
            else (bulletsTargets,
                  collisions @ [\<lparr>colA = a, colB = b, intersection = i\<rparr>], sensors)))"

text \<open>The four probes of one target, in the order of the source.\<close>

definition probe_target :: "(ref \<Rightarrow> body) \<Rightarrow> ref \<Rightarrow> ref \<Rightarrow> hitResult \<Rightarrow> hitResult" where
  "probe_target h bullet tgt r =
     (let e = equationCoefs (h bullet);
          pp = prevPosition (h bullet);
          tb = bounds (h tgt);
          r1 = handlingLineIntersect (xc (rmin tb)) (ab e) (cb e) (yc (rmin tb)) (yc (rmax tb))
                 (xc pp) (yc pp) AxisX AxisY tgt r;
          r2 = handlingLineIntersect (xc (rmax tb)) (ab e) (cb e) (yc (rmin tb)) (yc (rmax tb))
                 (xc pp) (yc pp) AxisX AxisY tgt r1;
          r3 = handlingLineIntersect (yc (rmin tb)) (ba e) (ca e) (xc (rmin tb)) (xc (rmax tb))
                 (yc pp) (xc pp) AxisY AxisX tgt r2
      in handlingLineIntersect (yc (rmax tb)) (ba e) (ca e) (xc (rmin tb)) (xc (rmax tb))
           (yc pp) (xc pp) AxisY AxisX tgt r3)"

definition hitResult0 :: hitResult where
  "hitResult0 = \<lparr>point = \<lparr>xc = Fin 0, yc = Fin 0\<rparr>, halfSumm = PInf, target = None\<rparr>"

definition detect_bullet ::
  "(ref \<Rightarrow> body) \<Rightarrow> ref \<times> ref list \<Rightarrow> ref list \<times> sensor list \<Rightarrow> ref list \<times> sensor list" where
  "detect_bullet h bt s =
     (case s of (bodiesToRemove, sensors) \<Rightarrow>
        (let bullet = fst bt;
             r = fold (probe_target h bullet) (snd bt) hitResult0
         in case target r of
              None \<Rightarrow> s
            | Some tgt \<Rightarrow>
                ((if longOfLife (h bullet) = None \<or> btype (h tgt) = STATIC
                  then bodiesToRemove @ [bullet] else bodiesToRemove),
                 sensors @ [Hit bullet tgt (point r)])))"

definition detectCollisions ::
  "(ref \<Rightarrow> body) \<Rightarrow> (string \<times> pair) list \<Rightarrow> ref list \<times> collision list \<times> sensor list
     \<Rightarrow> ref list \<times> collision list \<times> sensor list" where
  "detectCollisions h broadphasePairs s =
     (case s of (bodiesToRemove, collisions, sensors) \<Rightarrow>
        (let (bulletsTargets, collisions', sensors') =
               fold (detect_pair h) broadphasePairs ([], collisions, sensors);
             (bodiesToRemove', sensors'') =
               fold (detect_bullet h) bulletsTargets (bodiesToRemove, sensors')
         in (bodiesToRemove', collisions', sensors'')))"

subsection \<open>Stage 5: correctionPositions\<close>

text \<open>
  \<open>updateCollision\<close> is a method of the player and the bounce class only; on another
  body the call throws.
\<close>

definition correction_body :: "collision \<Rightarrow> (ref \<Rightarrow> body) \<Rightarrow> (ref \<Rightarrow> body) option" where
  "correction_body c h =
     (let (resolvedBody, staticBody) =
            (if btype (h (colA c)) = PLAYER \<or> btype (h (colA c)) = BOUNCE
             then (colA c, colB c) else (colB c, colA c));
          rb = h resolvedBody;
          sb = h staticBody;
          boundsResolved = bounds rb;
          boundsStatic = bounds sb;
          cx0 = width (intersection c);
          cy0 = height (intersection c);
          inX = (xc (rmin boundsStatic) < xc (rmin boundsResolved) \<and>
                 xc (rmax boundsResolved) < xc (rmax boundsStatic));
          cx1 = (if inX then Fin 0 else cx0);
          inY = (yc (rmin boundsStatic) < yc (rmin boundsResolved) \<and>
                 yc (rmax boundsResolved) < yc (rmax boundsStatic));
          cy1 = (if inY then Fin 0 else cy0);
          need1 = (\<not> inX \<and> \<not> inY);
          above = (\<not> strict_eq cy1 (Fin 0) \<and> yc (position rb) < yc (position sb));
          jumpThrough = (above \<and> btype rb = PLAYER \<and> strict_eq (moveDirectionY rb) (Fin (- 1))
                          \<and> \<not> isOnGround rb);
          cy2 = (if jumpThrough then Fin 0 else cy1);
          landing = (above \<and> strict_eq (moveDirectionY rb) (Fin 1) \<and> cy2 < cx1);
          cx2 = (if landing then Fin 0 else cx1);
          need2 = (need1 \<and> \<not> jumpThrough \<and> \<not> landing);
          cy3 = (if need2 \<and> cx2 < cy2 then Fin 0 else cy2);
          cx3 = (if need2 \<and> \<not> cx2 < cy2 then Fin 0 else cx2);
          cy4 = (if yc (position rb) < yc (position sb) then cy3 * Fin (- 1) else cy3);
          cx4 = (if xc (position rb) < xc (position sb) then cx3 * Fin (- 1) else cx3);
          correction = \<lparr>xc = cx4, yc = cy4\<rparr>
      in case (case btype rb of
                 PLAYER \<Rightarrow> Some (Player_updateCollision correction rb)
               | BOUNCE \<Rightarrow> Some (Bounce_updateCollision correction rb)
               | _ \<Rightarrow> None) of
           None \<Rightarrow> None
         | Some rb' \<Rightarrow>
             Some (h(resolvedBody :=
                      setPosition \<lparr>xc = xc (position rb') + cx4, yc = yc (position rb') + cy4\<rparr> rb')))"

definition correctionPositions :: "collision list \<Rightarrow> (ref \<Rightarrow> body) \<Rightarrow> (ref \<Rightarrow> body) option" where
  "correctionPositions collisions h = forEach correction_body collisions h"

subsection \<open>Stage 6: afterUpdate\<close>

definition afterUpdate_body :: "ref \<Rightarrow> (ref \<Rightarrow> body) \<Rightarrow> (ref \<Rightarrow> body)" where
  "afterUpdate_body a h =
     (if btype (h a) = PLAYER \<and> \<not> isOnGround (h a) \<and> jumpTimer (h a) = None \<and>
         fallTimer (h a) = None
      then h(a := (h a)\<lparr>fallTimer := Some (Fin 0), lastGroundPositionY := yc (position (h a))\<rparr>)
      else h)"

definition afterUpdate :: "ref list \<Rightarrow> (ref \<Rightarrow> body) \<Rightarrow> (ref \<Rightarrow> body)" where
  "afterUpdate bs h = fold afterUpdate_body bs h"

section \<open>The world\<close>

text \<open>
  \<open>heap\<close> is the store of body objects, \<open>nextId\<close> the module's id counter.
\<close>

record world =
  wbounds :: rect
  wgravity :: jsnum
  bodies :: "ref list"
  bodiesToRemove :: "ref list"
  broadphase :: grid
  heap :: "ref \<Rightarrow> body"
  nextId :: nat

definition World :: "rect option \<Rightarrow> world" where
  "World bnds =
     \<lparr>wbounds = (case bnds of Some r \<Rightarrow> r
                  | None \<Rightarrow> \<lparr>rmin = \<lparr>xc = NInf, yc = NInf\<rparr>, rmax = \<lparr>xc = PInf, yc = PInf\<rparr>\<rparr>),
      wgravity = Fin (1 / 1000), bodies = [], bodiesToRemove = [], broadphase = Grid,
      heap = (\<lambda>a. blank), nextId = 1\<rparr>"

text \<open>
  \<open>_update\<close>: the six stages. \<open>None\<close> is a TypeError thrown inside a stage.
\<close>

definition World__update :: "jsnum \<Rightarrow> world \<Rightarrow> (world \<times> sensor list) option" where
  "World__update delta w =
     (let (h1, rem1, sensors1) =
            updatePositions delta (bodies w) (wbounds w) (heap w, bodiesToRemove w, [])
      in case removeBodies rem1 (h1, bodies w, broadphase w) of
           None \<Rightarrow> None
         | Some (h2, bs2, g2) \<Rightarrow>
             (case Grid_update bs2 (h2, g2) of
                None \<Rightarrow> None
              | Some (h3, g3) \<Rightarrow>
                  (let (rem4, collisions, sensors4) =
                         detectCollisions h3 (pairs g3) ([], [], sensors1)
                   in case correctionPositions collisions h3 of
                        None \<Rightarrow> None
                      | Some h5 \<Rightarrow>
                          Some (w\<lparr>heap := afterUpdate bs2 h5, bodies := bs2,
                                  bodiesToRemove := rem4, broadphase := g3\<rparr>, sensors4))))"

definition maxDelta :: jsnum where
  "maxDelta = Fin 33"

text \<open>
  The loop \<open>while(stepsCount--)\<close> of \<open>update\<close>. It need not end (a negative
  \<open>stepsCount\<close> never reaches zero), so the result is an option: the outer \<open>None\<close>
  is a call that does not return, \<open>Some None\<close> one that throws.
\<close>

partial_function (option) update_loop ::
  "jsnum \<Rightarrow> jsnum \<Rightarrow> world \<Rightarrow> sensor list \<Rightarrow> (world \<times> sensor list) option option" where
  "update_loop stepsCount delta w sensors =
     (if truthy stepsCount
      then (let stepsCount' = stepsCount - Fin 1;
                stepDelta = (if delta < maxDelta then delta else maxDelta);
                delta' = (if delta < maxDelta then delta else delta - maxDelta)
            in case World__update stepDelta w of
                 None \<Rightarrow> Some None
               | Some (w', s) \<Rightarrow> update_loop stepsCount' delta' w' (sensors @ s))
      else Some (Some (w, sensors)))"

definition World_update :: "jsnum \<Rightarrow> world \<Rightarrow> (world \<times> sensor list) option option" where
  "World_update delta w = update_loop (Math_ceil (delta / maxDelta)) delta w []"

definition World_removeBody :: "ref \<Rightarrow> world \<Rightarrow> world" where
  "World_removeBody a w = w\<lparr>bodiesToRemove := bodiesToRemove w @ [a]\<rparr>"

text \<open>The four factories: the new object gets the next id and goes to the end of
  \<open>bodies\<close>.\<close>

definition addNew :: "body \<Rightarrow> world \<Rightarrow> ref \<times> world" where
  "addNew b w =
     (nextId w, w\<lparr>heap := (heap w)(nextId w := b), bodies := bodies w @ [nextId w],
                  nextId := nextId w + 1\<rparr>)"

definition World_createBulletBody ::
  "jsnum \<Rightarrow> jsnum \<Rightarrow> vec \<Rightarrow> ref option \<Rightarrow> jsnum option \<Rightarrow> world \<Rightarrow> ref \<times> world" where
  "World_createBulletBody x y f owner lol w = addNew (BodyBullet x y f owner lol) w"

definition World_createBounceBody ::
  "jsnum \<Rightarrow> jsnum \<Rightarrow> jsnum \<Rightarrow> jsnum \<Rightarrow> vec \<Rightarrow> world \<Rightarrow> ref \<times> world" where
  "World_createBounceBody x y wd ht f w =
     addNew (BodyBounce x y wd ht f (wgravity w)) w"

definition World_createPlayerBody ::
  "jsnum \<Rightarrow> jsnum \<Rightarrow> jsnum \<Rightarrow> jsnum \<Rightarrow> jsnum option \<Rightarrow> jsnum option \<Rightarrow> world \<Rightarrow> ref \<times> world" where
  "World_createPlayerBody x y wd ht speed jump w =
     addNew (BodyPlayer x y wd ht speed jump (wgravity w)) w"

definition World_createStaticBody ::
  "jsnum \<Rightarrow> jsnum \<Rightarrow> jsnum \<Rightarrow> jsnum \<Rightarrow> bool \<Rightarrow> world \<Rightarrow> ref \<times> world" where
  "World_createStaticBody x y wd ht sensor w =
     addNew (BodyStatic x y wd ht sensor) w"

section \<open>Example worlds\<close>

text \<open>
  A static body of 100 by 100 centred at (500, 0) and a bullet at (440, 0) flying along
  the X axis at 5000 points per second.
\<close>

definition world_bullet :: world where
  "world_bullet =
     snd (World_createBulletBody (Fin 440) (Fin 0) \<lparr>xc = Fin 5000, yc = Fin 0\<rparr> None None
       (snd (World_createStaticBody (Fin 500) (Fin 0) (Fin 100) (Fin 100) False (World None))))"

text \<open>The same world after the host has called \<open>removeBody\<close> on the bullet.\<close>

definition world_bullet_queued :: world where
  "world_bullet_queued = World_removeBody 2 world_bullet"

definition world_bullet_after :: world where
  "world_bullet_after =
     (case World__update (Fin 16) world_bullet of Some (w, ss) \<Rightarrow> w | None \<Rightarrow> world_bullet)"

section \<open>Stage 4: the tests of the first loop\<close>

text \<open>
  The tests of the first loop of \<open>detectCollisions\<close>, named: the pair is skipped
  (a negative width or height), one body is a sensor, one body is a bullet.
\<close>

definition skipped :: "(ref \<Rightarrow> body) \<Rightarrow> pair \<Rightarrow> bool" where
  "skipped h p =
     (let i = getIntersection (bounds (h (bodyA p))) (bounds (h (bodyB p)))
      in width i < Fin 0 \<or> height i < Fin 0)"

definition sensorPair :: "(ref \<Rightarrow> body) \<Rightarrow> pair \<Rightarrow> bool" where
  "sensorPair h p = (isSensor (h (bodyA p)) \<or> isSensor (h (bodyB p)))"

definition bulletPair :: "(ref \<Rightarrow> body) \<Rightarrow> pair \<Rightarrow> bool" where
  "bulletPair h p = (btype (h (bodyA p)) = BULLET \<or> btype (h (bodyB p)) = BULLET)"

definition bulletOf :: "(ref \<Rightarrow> body) \<Rightarrow> pair \<Rightarrow> ref" where
  "bulletOf h p = (if btype (h (bodyA p)) = BULLET then bodyA p else bodyB p)"

definition hittedOf :: "(ref \<Rightarrow> body) \<Rightarrow> pair \<Rightarrow> ref" where
  "hittedOf h p = (if btype (h (bodyA p)) = BULLET then bodyB p else bodyA p)"

definition contactOf :: "(ref \<Rightarrow> body) \<Rightarrow> pair \<Rightarrow> collision" where
  "contactOf h p = \<lparr>colA = bodyA p, colB = bodyB p,
     intersection = getIntersection (bounds (h (bodyA p))) (bounds (h (bodyB p)))\<rparr>"

definition targetsOf :: "(ref \<times> ref list) list \<Rightarrow> ref \<Rightarrow> ref list" where
  "targetsOf bt b = (case map_of bt b of None \<Rightarrow> [] | Some ts \<Rightarrow> ts)"

text \<open>
  A static sensor with bounds [0, 10] x [0, 10] and a player with bounds
  [10, 20] x [0, 10]: the two rectangles touch along the line x = 10.
\<close>

definition world_sensor :: world where
  "world_sensor =
     snd (World_createPlayerBody (Fin 15) (Fin 5) (Fin 10) (Fin 10) None None
       (snd (World_createStaticBody (Fin 5) (Fin 5) (Fin 10) (Fin 10) True (World None))))"

section \<open>Example bodies and worlds for the integrators\<close>



text \<open>
  A static floor with bounds [-50, 50] x [10, 30] and, above it, a bounce body of
  20 by 20 at the origin falling at 1000 points per second.
\<close>

definition world_bounce :: world where
  "world_bounce =
     snd (World_createBounceBody (Fin 0) (Fin 0) (Fin 20) (Fin 20) \<lparr>xc = Fin 0, yc = Fin 1000\<rparr>
       (snd (World_createStaticBody (Fin 0) (Fin 20) (Fin 100) (Fin 20) False (World None))))"

definition world_bounce_after :: world where
  "world_bounce_after =
     (case World__update (Fin 16) world_bounce of Some (w, ss) \<Rightarrow> w | None \<Rightarrow> world_bounce)"

section \<open>Reachable worlds\<close>

text \<open>
  What the host can do with a world: make it, create bodies, queue removals, step it,
  and call the public methods of a player or a bounce body.
\<close>

inductive reachable :: "world \<Rightarrow> bool" where
  init: "reachable (World bnds)"
| createBullet: "reachable w \<Longrightarrow> reachable (snd (World_createBulletBody x y f owner lol w))"
| createBounce: "reachable w \<Longrightarrow> reachable (snd (World_createBounceBody x y wd ht f w))"
| createPlayer: "reachable w \<Longrightarrow> reachable (snd (World_createPlayerBody x y wd ht speed jump w))"
| createStatic: "reachable w \<Longrightarrow> reachable (snd (World_createStaticBody x y wd ht sensor w))"
| removeBody: "reachable w \<Longrightarrow> reachable (World_removeBody a w)"
| update: "reachable w \<Longrightarrow> World_update delta w = Some (Some (w', ss)) \<Longrightarrow> reachable w'"
| move: "reachable w \<Longrightarrow> btype (heap w a) = PLAYER \<Longrightarrow>
     reachable (w\<lparr>heap := (heap w)(a := Player_move dir (heap w a))\<rparr>)"
| stop: "reachable w \<Longrightarrow> btype (heap w a) = PLAYER \<Longrightarrow>
     reachable (w\<lparr>heap := (heap w)(a := Player_stop (heap w a))\<rparr>)"
| jump: "reachable w \<Longrightarrow> btype (heap w a) = PLAYER \<Longrightarrow>
     reachable (w\<lparr>heap := (heap w)(a := Player_jump (heap w a))\<rparr>)"
| setPosition: "reachable w \<Longrightarrow> btype (heap w a) = PLAYER \<or> btype (heap w a) = BOUNCE \<Longrightarrow>
     reachable (w\<lparr>heap := (heap w)(a := setPosition p (heap w a))\<rparr>)"

section \<open>Predicates of the proofs\<close>

text \<open>
  A property of a body that every method the engine calls on a body keeps, and every
  field assignment the engine makes from outside a method.
\<close>

definition method_stable :: "(body \<Rightarrow> bool) \<Rightarrow> bool" where
  "method_stable P \<longleftrightarrow>
     (\<forall>b. P b \<longrightarrow>
        (\<forall>d. P (Player_update d b)) \<and> (\<forall>d. P (Bounce_update d b)) \<and>
        (\<forall>d s r. P (fst (Bullet_update d s b r))) \<and>
        (\<forall>c. P (Player_updateCollision c b)) \<and> (\<forall>c. P (Bounce_updateCollision c b)) \<and>
        (\<forall>p. P (setPosition p b)) \<and>
        (\<forall>r. P (b\<lparr>regions := r\<rparr>)) \<and> (\<forall>r. P (b\<lparr>regionsString := r\<rparr>)) \<and>
        (\<forall>u. P (b\<lparr>isUpdated := u\<rparr>)) \<and>
        (\<forall>y. P (b\<lparr>fallTimer := Some (Fin 0), lastGroundPositionY := y\<rparr>)))"

text \<open>
  The same without the two fields only the grid assigns: what stages 1, 5 and 6 and the
  host's calls of a body's methods keep.
\<close>

definition engine_stable :: "(body \<Rightarrow> bool) \<Rightarrow> bool" where
  "engine_stable P \<longleftrightarrow>
     (\<forall>b. P b \<longrightarrow>
        (\<forall>d. P (Player_update d b)) \<and> (\<forall>d. P (Bounce_update d b)) \<and>
        (\<forall>d s r. P (fst (Bullet_update d s b r))) \<and>
        (\<forall>c. P (Player_updateCollision c b)) \<and> (\<forall>c. P (Bounce_updateCollision c b)) \<and>
        (\<forall>p. P (setPosition p b)) \<and>
        (\<forall>u. P (b\<lparr>isUpdated := u\<rparr>)) \<and>
        (\<forall>y. P (b\<lparr>fallTimer := Some (Fin 0), lastGroundPositionY := y\<rparr>)))"

definition cf_ok :: "body \<Rightarrow> bool" where
  "cf_ok b \<longleftrightarrow>
     0 \<le> countCollisionsFixX b \<and> countCollisionsFixX b \<le> 3 \<and>
     0 \<le> countCollisionsFixY b \<and> countCollisionsFixY b \<le> 3"

text \<open>
  The bullets stage 4 queues for removal, read off the sensor records: the bullet of
  an \<open>isHit\<close> record, when it has no \<open>longOfLife\<close> or the body hit is static.
\<close>

fun removalOf :: "(ref \<Rightarrow> body) \<Rightarrow> sensor \<Rightarrow> ref list" where
  "removalOf h (Hit b t p) =
     (if longOfLife (h b) = None \<or> btype (h t) = STATIC then [b] else [])"
| "removalOf h _ = []"

definition hitRemovals :: "(ref \<Rightarrow> body) \<Rightarrow> sensor list \<Rightarrow> ref list" where
  "hitRemovals h ss = concat (map (removalOf h) ss)"

section \<open>Bullet crossings in the words of the specification\<close>

text \<open>
  The crossing a probe accepts: the coefficients are finite and the computed coordinate
  lies strictly between the two bounds of the edge; its distance from the bullet's
  previous position is the Manhattan distance. \<open>all_crossings\<close> lists the accepted
  crossings of a bullet in probe order (min-X, max-X, min-Y, max-Y), target by target.
\<close>

definition crossing :: "jsnum \<Rightarrow> jsnum \<Rightarrow> jsnum \<Rightarrow> jsnum \<Rightarrow> jsnum \<Rightarrow> axis \<Rightarrow> axis \<Rightarrow> vec option" where
  "crossing input a b lo hi inputAxis outputAxis =
     (if \<not> isFinite a \<or> \<not> isFinite b then None
      else (let output = - a * input - b
            in if output \<le> lo \<or> hi \<le> output then None
               else Some (setAxis outputAxis output (setAxis inputAxis input vzero))))"

definition manhattan :: "vec \<Rightarrow> vec \<Rightarrow> jsnum" where
  "manhattan p q = \<bar>xc p - xc q\<bar> + \<bar>yc p - yc q\<bar>"

definition crossings_of :: "(ref \<Rightarrow> body) \<Rightarrow> ref \<Rightarrow> ref \<Rightarrow> (vec \<times> ref) list" where
  "crossings_of h bullet tgt =
     (let e = equationCoefs (h bullet); tb = bounds (h tgt)
      in map (\<lambda>p. (p, tgt))
           (concat (map (\<lambda>c. case c of None \<Rightarrow> [] | Some p \<Rightarrow> [p])
              [crossing (xc (rmin tb)) (ab e) (cb e) (yc (rmin tb)) (yc (rmax tb)) AxisX AxisY,
               crossing (xc (rmax tb)) (ab e) (cb e) (yc (rmin tb)) (yc (rmax tb)) AxisX AxisY,
               crossing (yc (rmin tb)) (ba e) (ca e) (xc (rmin tb)) (xc (rmax tb)) AxisY AxisX,
               crossing (yc (rmax tb)) (ba e) (ca e) (xc (rmin tb)) (xc (rmax tb)) AxisY AxisX])))"

definition all_crossings :: "(ref \<Rightarrow> body) \<Rightarrow> ref \<Rightarrow> ref list \<Rightarrow> (vec \<times> ref) list" where
  "all_crossings h bullet targets = concat (map (crossings_of h bullet) targets)"

text \<open>One comparison of the running nearest hit with a crossing.\<close>

definition take_nearer :: "vec \<Rightarrow> vec \<times> ref \<Rightarrow> hitResult \<Rightarrow> hitResult" where
  "take_nearer pp c r =
     (if manhattan (fst c) pp < halfSumm r
      then \<lparr>point = fst c, halfSumm = manhattan (fst c) pp, target = Some (snd c)\<rparr>
      else r)"

section \<open>The grid: regions, pairs and their counts\<close>

text \<open>
  \<open>inRegion g r a\<close>: the body \<open>a\<close> appears in the list \<open>hash[r]\<close>. \<open>pcount\<close> reads the
  \<open>count\<close> field of the pair under a key, 0 when the key is absent. \<open>regs h a\<close> is the set
  of region keys stored in \<open>body.regions\<close>.
\<close>

definition inRegion :: "grid \<Rightarrow> string \<Rightarrow> ref \<Rightarrow> bool" where
  "inRegion g r a = (case hash g r of None \<Rightarrow> False | Some l \<Rightarrow> a \<in> set l)"

definition bodiesIn :: "grid \<Rightarrow> string \<Rightarrow> ref list" where
  "bodiesIn g r = (case hash g r of None \<Rightarrow> [] | Some l \<Rightarrow> l)"

definition pcount :: "(string \<times> pair) list \<Rightarrow> string \<Rightarrow> int" where
  "pcount ps k = (case map_of ps k of None \<Rightarrow> 0 | Some p \<Rightarrow> count p)"

definition pairs_wf :: "(string \<times> pair) list \<Rightarrow> bool" where
  "pairs_wf ps \<longleftrightarrow>
     (\<forall>k p. map_of ps k = Some p \<longrightarrow>
        1 \<le> count p \<and> bodyA p \<noteq> bodyB p \<and> k = getPairId (bodyA p) (bodyB p))"

definition regs :: "(ref \<Rightarrow> body) \<Rightarrow> ref \<Rightarrow> string set" where
  "regs h a = (case regions (h a) of None \<Rightarrow> {} | Some rs \<Rightarrow> set rs)"

definition hash_distinct :: "grid \<Rightarrow> bool" where
  "hash_distinct g \<longleftrightarrow> (\<forall>r l. hash g r = Some l \<longrightarrow> distinct l)"

definition ginv :: "(ref \<Rightarrow> string set) \<Rightarrow> (ref \<Rightarrow> ref \<Rightarrow> bool) \<Rightarrow> grid \<Rightarrow> bool" where
  "ginv R cc g \<longleftrightarrow>
     hash_distinct g \<and>
     (\<forall>a r. inRegion g r a \<longleftrightarrow> r \<in> R a) \<and>
     (\<forall>a. finite (R a)) \<and>
     pairs_wf (pairs g) \<and>
     (\<forall>a b. a \<noteq> b \<longrightarrow>
        pcount (pairs g) (getPairId a b) = (if cc a b then int (card (R a \<inter> R b)) else 0))"

definition grid_inv :: "(ref \<Rightarrow> body) \<Rightarrow> grid \<Rightarrow> bool" where
  "grid_inv h g \<longleftrightarrow>
     ginv (regs h) (canCollide h) g \<and> (\<forall>a rs. regions (h a) = Some rs \<longrightarrow> distinct rs)"

text \<open>Splicing a body out of one region's list, as \<open>removeBody\<close> does it.\<close>

definition spliceOut :: "ref \<Rightarrow> string \<Rightarrow> grid \<Rightarrow> grid" where
  "spliceOut a region g =
     (case hash g region of None \<Rightarrow> g
      | Some l \<Rightarrow> g\<lparr>hash := (hash g)(region \<mapsto> remove1 a l)\<rparr>)"

text \<open>
  The states of a grid and of the bodies it indexes: a fresh grid with bodies that carry
  no \<open>regions\<close> yet, then any sequence of \<open>update\<close> and \<open>removeBody\<close> calls, and between
  them any change of the bodies that leaves alone what only the grid writes
  (\<open>regions\<close>) and what nothing writes after construction (\<open>type\<close> and \<open>ownerId\<close> of an
  indexed body).
\<close>

inductive grid_reachable :: "(ref \<Rightarrow> body) \<times> grid \<Rightarrow> bool" where
  init: "(\<forall>a. regions (h a) = None) \<Longrightarrow> grid_reachable (h, Grid)"
| update: "grid_reachable s \<Longrightarrow> Grid_update bs s = Some s' \<Longrightarrow> grid_reachable s'"
| removeBody: "grid_reachable s \<Longrightarrow> Grid_removeBody a s = Some s' \<Longrightarrow> grid_reachable s'"
| mutate: "grid_reachable (h, g) \<Longrightarrow>
     (\<forall>a. regions (h' a) = regions (h a) \<and>
          (regions (h a) \<noteq> None \<longrightarrow>
             btype (h' a) = btype (h a) \<and> ownerId (h' a) = ownerId (h a))) \<Longrightarrow>
     grid_reachable (h', g)"

text \<open>The grid after the first \<open>update\<close> of the world of the bullet example.\<close>

definition grid_example :: "(ref \<Rightarrow> body) \<times> grid" where
  "grid_example =
     (case Grid_update [1, 2] (heap world_bullet, Grid) of
        Some s \<Rightarrow> s | None \<Rightarrow> (heap world_bullet, Grid))"

text \<open>
  What a world keeps about its grid: the grid and the store form a reachable state of the
  grid, no object beyond \<open>nextId\<close> is indexed, and the bodies of the world lie below
  \<open>nextId\<close>.
\<close>

definition world_ok :: "world \<Rightarrow> bool" where
  "world_ok w \<longleftrightarrow>
     grid_reachable (heap w, broadphase w) \<and>
     (\<forall>a. nextId w \<le> a \<longrightarrow> regions (heap w a) = None) \<and>
     (\<forall>a\<in>set (bodies w). a < nextId w)"

section \<open>Properties\<close>

subsection \<open>Evaluation\<close>

lemmas body_defs = BodyBullet_def BodyStatic_def BodyBounce_def BodyPlayer_def blank_def
  Bullet_updateBounds_def updateBounds_def vzero_def rzero_def Bullet_update_def
  Bounce_update_def Player_update_def Player_updateCollision_def Bounce_updateCollision_def
  setPosition_def BOUNCE_FIXES_LIMIT_X_def BOUNCE_FIXES_LIMIT_Y_def Math_pow2_def

lemmas world_defs = World_createBulletBody_def World_createStaticBody_def
  World_createBounceBody_def World_createPlayerBody_def addNew_def World_def Grid_def
  World__update_def World_removeBody_def

lemmas engine_defs = updatePositions_def updatePositions_body_def removeBodies_def
  removeBodies_body_def detectCollisions_def detect_pair_def detect_bullet_def
  probe_target_def handlingLineIntersect_def hitResult0_def correctionPositions_def
  correction_body_def afterUpdate_def afterUpdate_body_def isOutOfRegion_def
  getIntersection_def strict_eq_def

lemmas grid_defs = Grid_update_def Grid_update_body_def Grid_addBody_def Grid_updateBody_def
  Grid_removeBody_def Grid_addPairs_def Grid_removePairs_def addPair_def removePair_def
  hashPush_def canCollide_def getPairId_def getRegions_def regionKey_def regionsShift_def
  sar_def toString_def digit_def

lemma digits_numeral:
  "digits (numeral k) =
     (if (numeral k :: nat) < 10 then [digit (numeral k)]
      else digits (numeral k div 10) @ [digit (numeral k mod 10)])"
  by (rule digits.simps)

lemma digits_0: "digits 0 = [digit 0]"
  by (simp add: digits.simps)

lemma digits_1: "digits 1 = [digit 1]"
  by (simp add: digits.simps)

lemma digits_Suc0: "digits (Suc 0) = [digit 1]"
  by (simp add: digits.simps)

lemmas num_eval = digits_numeral digits_0 digits_1 digits_Suc0 upto.simps minus_jsnum_def Let_def

lemmas eval_defs = body_defs world_defs engine_defs grid_defs num_eval

subsection \<open>The public step\<close>

lemma ceiling_one_step: "0 < d \<Longrightarrow> d \<le> 33 \<Longrightarrow> \<lceil>d / 33 :: real\<rceil> = 1"
  by (simp add: ceiling_eq_iff)

lemma update_one_step:
  "0 < d \<Longrightarrow> d \<le> 33 \<Longrightarrow> World_update (Fin d) w = Some (World__update (Fin d) w)"
  apply (simp add: World_update_def maxDelta_def ceiling_one_step)
  apply (subst update_loop.simps)
  apply (simp add: maxDelta_def minus_jsnum_def)
  apply (subst update_loop.simps)
  apply (auto simp: update_loop.simps split: option.splits)
  done

text \<open>
  C9: \<open>update(0)\<close> returns an empty sensor list and leaves the whole world as it was:
  the step count \<open>Math.ceil(0 / 33)\<close> is zero and no stage runs.
\<close>

theorem update_zero_is_identity: "World_update (Fin 0) w = Some (Some (w, []))"
  by (simp add: World_update_def maxDelta_def update_loop.simps)





subsection \<open>Loops and their invariants\<close>

lemma forEach_invariant:
  assumes "forEach f vs s = Some s'" and "I s"
    and "\<And>v t t'. v \<in> set vs \<Longrightarrow> I t \<Longrightarrow> f v t = Some t' \<Longrightarrow> I t'"
  shows "I s'"
  using assms
proof (induction vs arbitrary: s)
  case Nil
  then show ?case by simp
next
  case (Cons v vs)
  from Cons.prems(1) obtain t where t: "f v s = Some t" and r: "forEach f vs t = Some s'"
    by (auto split: option.splits)
  have it: "I t" using Cons.prems(3)[of v s t] Cons.prems(2) t by simp
  have step: "\<And>u t t'. u \<in> set vs \<Longrightarrow> I t \<Longrightarrow> f u t = Some t' \<Longrightarrow> I t'"
    using Cons.prems(3) by auto
  show ?case by (rule Cons.IH[OF r it step])
qed

lemma fold_invariant:
  assumes "I s" and "\<And>v t. v \<in> set vs \<Longrightarrow> I t \<Longrightarrow> I (f v t)"
  shows "I (fold f vs s)"
  using assms by (induction vs arbitrary: s) auto

subsection \<open>Bodies queued for removal\<close>

lemma updatePositions_body_queued:
  assumes "a \<in> set (fst (snd s))"
  shows "a \<in> set (fst (snd (updatePositions_body delta wb v s))) \<and>
         fst (updatePositions_body delta wb v s) a = fst s a"
  using assms
  by (cases s)
     (auto simp: updatePositions_body_def Let_def Bullet_update_def
      split: if_splits body_type.splits prod.splits option.splits)

lemma updatePositions_queued:
  assumes "a \<in> set r"
  shows "fst (updatePositions delta bs wb (h, r, ss)) a = h a"
proof -
  have "(\<lambda>s. a \<in> set (fst (snd s)) \<and> fst s a = h a)
          (fold (updatePositions_body delta wb) bs (h, r, ss))"
  proof (rule fold_invariant)
    show "a \<in> set (fst (snd (h, r, ss))) \<and> fst (h, r, ss) a = h a" using assms by simp
  next
    fix v and t :: "(ref \<Rightarrow> body) \<times> ref list \<times> sensor list"
    assume "a \<in> set (fst (snd t)) \<and> fst t a = h a"
    then show "a \<in> set (fst (snd (updatePositions_body delta wb v t))) \<and>
               fst (updatePositions_body delta wb v t) a = h a"
      using updatePositions_body_queued[of a t delta wb v] by simp
  qed
  then show ?thesis by (simp add: updatePositions_def)
qed

lemma Grid_removeBody_regions_only:
  "Grid_removeBody v (h, g) = Some (h', g') \<Longrightarrow>
     (h' a)\<lparr>regions := None, regionsString := None\<rparr>
       = (h a)\<lparr>regions := None, regionsString := None\<rparr>"
  by (auto simp: Grid_removeBody_def Let_def split: option.splits if_splits)

lemma removeBodies_regions_only:
  assumes "removeBodies r (h, bs, g) = Some (h', bs', g')"
  shows "(h' a)\<lparr>regions := None, regionsString := None\<rparr>
           = (h a)\<lparr>regions := None, regionsString := None\<rparr>"
proof -
  have "(\<lambda>s. (fst s a)\<lparr>regions := None, regionsString := None\<rparr>
              = (h a)\<lparr>regions := None, regionsString := None\<rparr>) (h', bs', g')"
  proof (rule forEach_invariant[OF assms[unfolded removeBodies_def]])
    show "(fst (h, bs, g) a)\<lparr>regions := None, regionsString := None\<rparr>
            = (h a)\<lparr>regions := None, regionsString := None\<rparr>" by simp
  next
    fix v t t'
    assume i: "(fst t a)\<lparr>regions := None, regionsString := None\<rparr>
                 = (h a)\<lparr>regions := None, regionsString := None\<rparr>"
      and s: "removeBodies_body v t = Some t'"
    obtain h1 b1 g1 where t: "t = (h1, b1, g1)" by (cases t)
    from s t obtain h2 g2 where "Grid_removeBody v (h1, g1) = Some (h2, g2)"
      and "t' = (h2, remove1 v b1, g2)"
      by (auto simp: removeBodies_body_def split: option.splits)
    then show "(fst t' a)\<lparr>regions := None, regionsString := None\<rparr>
                 = (h a)\<lparr>regions := None, regionsString := None\<rparr>"
      using Grid_removeBody_regions_only[of v h1 g1 h2 g2 a] i t by simp
  qed
  then show ?thesis by simp
qed

text \<open>
  C10: a body that is in \<open>bodiesToRemove\<close> when a sub-step begins is not updated by
  stage 1: after \<open>updatePositions\<close> its object is what it was, and when stage 2 has
  taken it out, only \<open>regions\<close> and \<open>regionsString\<close> have been cleared; position,
  force and timers are as the host left them.
\<close>

theorem queued_body_is_not_updated:
  assumes "a \<in> set (bodiesToRemove w)"
  shows "fst (updatePositions delta (bodies w) (wbounds w) (heap w, bodiesToRemove w, [])) a
           = heap w a
    \<and> (case removeBodies
               (fst (snd (updatePositions delta (bodies w) (wbounds w)
                           (heap w, bodiesToRemove w, []))))
               (fst (updatePositions delta (bodies w) (wbounds w)
                      (heap w, bodiesToRemove w, [])), bodies w, broadphase w) of
          None \<Rightarrow> True
        | Some (h2, bs2, g2) \<Rightarrow>
            (h2 a)\<lparr>regions := None, regionsString := None\<rparr>
              = (heap w a)\<lparr>regions := None, regionsString := None\<rparr>)"
  using updatePositions_queued[OF assms, of delta "bodies w" "wbounds w" "heap w" "[]"]
  by (auto split: option.splits dest!: removeBodies_regions_only[where a=a])

theorem queued_body_is_not_updated_witness:
  "2 \<in> set (bodiesToRemove world_bullet_queued) \<and>
   position (fst (updatePositions (Fin 16) (bodies world_bullet_queued)
                    (wbounds world_bullet_queued)
                    (heap world_bullet_queued, bodiesToRemove world_bullet_queued, [])) 2)
     = \<lparr>xc = Fin 440, yc = Fin 0\<rparr>"
  using queued_body_is_not_updated[of 2 world_bullet_queued "Fin 16"]
  by (simp add: world_bullet_queued_def world_bullet_def world_defs body_defs num_eval)

subsection \<open>Stage 4: which pairs collide\<close>

lemma push_keys:
  "fst ` set (bulletsTargets_push k v bt) = insert k (fst ` set bt)"
proof (induction bt)
  case Nil
  then show ?case by simp
next
  case (Cons e bt)
  obtain k' vs where e: "e = (k', vs)" by (cases e)
  show ?case unfolding e using Cons.IH by (cases "k = k'"; cases "k < k'") auto
qed

lemma push_sorted:
  "sorted_wrt (<) (map fst bt) \<Longrightarrow> sorted_wrt (<) (map fst (bulletsTargets_push k v bt))"
proof (induction bt)
  case Nil
  then show ?case by simp
next
  case (Cons e bt)
  obtain k' vs where e: "e = (k', vs)" by (cases e)
  have "fst ` set (bulletsTargets_push k v bt) = insert k (fst ` set bt)"
    by (rule push_keys)
  then show ?case using Cons unfolding e by (cases "k = k'"; cases "k < k'") auto
qed

lemma targetsOf_push:
  "sorted_wrt (<) (map fst bt) \<Longrightarrow>
   targetsOf (bulletsTargets_push k v bt) b =
     (if b = k then targetsOf bt k @ [v] else targetsOf bt b)"
proof (induction bt)
  case Nil
  then show ?case by (simp add: targetsOf_def)
next
  case (Cons e bt)
  obtain k' vs where e: "e = (k', vs)" by (cases e)
  have notin: "k < k' \<Longrightarrow> map_of bt k = None"
    using Cons.prems unfolding e by (force simp: map_of_eq_None_iff)
  show ?case using Cons notin unfolding e by (auto simp: targetsOf_def)
qed

lemma detect_pair_cases:
  "detect_pair h (k, p) (bt, cs, ss) =
     (if skipped h p then (bt, cs, ss)
      else if sensorPair h p then (bt, cs, ss @ [Overlap (bodyA p) (bodyB p)])
      else if bulletPair h p then (bulletsTargets_push (bulletOf h p) (hittedOf h p) bt, cs, ss)
      else (bt, cs @ [contactOf h p], ss))"
  by (simp add: detect_pair_def skipped_def sensorPair_def bulletPair_def bulletOf_def
      hittedOf_def contactOf_def Let_def)

lemma pairs_classified_aux:
  "sorted_wrt (<) (map fst bt) \<Longrightarrow>
   snd (snd (fold (detect_pair h) ps (bt, cs, ss)))
     = ss @ [Overlap (bodyA (snd kp)) (bodyB (snd kp)). kp \<leftarrow> ps,
              \<not> skipped h (snd kp) \<and> sensorPair h (snd kp)]
   \<and> fst (snd (fold (detect_pair h) ps (bt, cs, ss)))
     = cs @ [contactOf h (snd kp). kp \<leftarrow> ps,
              \<not> skipped h (snd kp) \<and> \<not> sensorPair h (snd kp) \<and> \<not> bulletPair h (snd kp)]
   \<and> targetsOf (fst (fold (detect_pair h) ps (bt, cs, ss))) b
     = targetsOf bt b @ [hittedOf h (snd kp). kp \<leftarrow> ps,
              \<not> skipped h (snd kp) \<and> \<not> sensorPair h (snd kp) \<and> bulletPair h (snd kp)
              \<and> bulletOf h (snd kp) = b]
   \<and> sorted_wrt (<) (map fst (fst (fold (detect_pair h) ps (bt, cs, ss))))"
proof (induction ps arbitrary: bt cs ss)
  case Nil
  then show ?case by simp
next
  case (Cons kp ps)
  obtain k p where kp: "kp = (k, p)" by (cases kp)
  note s = push_sorted[OF Cons.prems]
  show ?case
    unfolding kp fold_Cons comp_apply detect_pair_cases
    using Cons.prems by (simp add: Cons.IH push_sorted targetsOf_push)
qed

text \<open>
  C2, amended: the first loop of stage 4 skips exactly the pairs whose intersection has
  a negative width or height. Every other pair, one of width 0 or height 0 included,
  is treated as colliding: it gives a sensor record when a body is a sensor, else a
  bullet target when a body is a bullet, else a contact.
\<close>

theorem pairs_classified:
  "snd (snd (fold (detect_pair h) ps ([], cs, ss)))
     = ss @ [Overlap (bodyA (snd kp)) (bodyB (snd kp)). kp \<leftarrow> ps,
              \<not> skipped h (snd kp) \<and> sensorPair h (snd kp)]
   \<and> fst (snd (fold (detect_pair h) ps ([], cs, ss)))
     = cs @ [contactOf h (snd kp). kp \<leftarrow> ps,
              \<not> skipped h (snd kp) \<and> \<not> sensorPair h (snd kp) \<and> \<not> bulletPair h (snd kp)]
   \<and> targetsOf (fst (fold (detect_pair h) ps ([], cs, ss))) b
     = [hittedOf h (snd kp). kp \<leftarrow> ps,
              \<not> skipped h (snd kp) \<and> \<not> sensorPair h (snd kp) \<and> bulletPair h (snd kp)
              \<and> bulletOf h (snd kp) = b]"
  using pairs_classified_aux[of "[]" h ps cs ss b] by (simp add: targetsOf_def)

text \<open>
  C2, as stated, fails: the sensor and the player of the example touch with an
  intersection of width 0, and the step emits the sensor record for the pair.
\<close>

theorem zero_width_pair_emits_sensor:
  "map_option (\<lambda>r. (snd r, getIntersection (bounds (heap (fst r) 2)) (bounds (heap (fst r) 1))))
     (World__update (Fin 16) world_sensor)
   = Some ([Overlap 2 1], \<lparr>width = Fin 0, height = Fin 10\<rparr>)"
  by (simp add: world_sensor_def eval_defs)

subsection \<open>Properties kept by every stage\<close>

lemma method_stable_engine: "method_stable P \<Longrightarrow> engine_stable P"
  by (simp add: method_stable_def engine_stable_def)

lemma updatePositions_body_stable:
  assumes "engine_stable P" "P (fst s a)"
  shows "P (fst (updatePositions_body delta wb v s) a)"
  using assms
  by (cases s)
     (auto simp: updatePositions_body_def Let_def engine_stable_def
       split: if_splits body_type.splits prod.splits dest: fstI)


lemma updatePositions_stable:
  assumes "engine_stable P" "P (h a)"
  shows "P (fst (updatePositions delta bs wb (h, r, ss)) a)"
proof -
  have "(\<lambda>s. P (fst s a)) (fold (updatePositions_body delta wb) bs (h, r, ss))"
    by (rule fold_invariant) (use assms in \<open>auto intro: updatePositions_body_stable\<close>)
  then show ?thesis by (simp add: updatePositions_def)
qed

lemma Grid_removeBody_stable:
  assumes "method_stable P" "P (h a)" "Grid_removeBody v (h, g) = Some (h', g')"
  shows "P (h' a)"
  using assms
  by (auto simp: Grid_removeBody_def Let_def method_stable_def split: option.splits if_splits)

lemma removeBodies_stable:
  assumes "method_stable P" "P (h a)" "removeBodies r (h, bs, g) = Some (h', bs', g')"
  shows "P (h' a)"
proof -
  have "(\<lambda>s. P (fst s a)) (h', bs', g')"
  proof (rule forEach_invariant[OF assms(3)[unfolded removeBodies_def]])
    show "P (fst (h, bs, g) a)" using assms(2) by simp
  next
    fix v t t'
    assume i: "P (fst t a)" and s: "removeBodies_body v t = Some t'"
    obtain h1 b1 g1 where t: "t = (h1, b1, g1)" by (cases t)
    from s t obtain h2 g2 where "Grid_removeBody v (h1, g1) = Some (h2, g2)"
      and "t' = (h2, remove1 v b1, g2)"
      by (auto simp: removeBodies_body_def split: option.splits)
    then show "P (fst t' a)"
      using Grid_removeBody_stable[where P=P and h=h1 and a=a and v=v and g=g1 and h'=h2 and g'=g2,
          OF assms(1)] i t by simp
  qed
  then show ?thesis by simp
qed

lemma Grid_update_body_stable:
  assumes "method_stable P" "P (fst s a)" "Grid_update_body v s = Some s'"
  shows "P (fst s' a)"
  using assms
  by (cases s)
     (auto simp: Grid_update_body_def Grid_addBody_def Grid_updateBody_def Let_def
        method_stable_def split: option.splits if_splits)

lemma Grid_update_stable:
  assumes "method_stable P" "P (h a)" "Grid_update bs (h, g) = Some (h', g')"
  shows "P (h' a)"
proof -
  have "(\<lambda>s. P (fst s a)) (h', g')"
    by (rule forEach_invariant[OF assms(3)[unfolded Grid_update_def]])
       (use assms in \<open>auto intro: Grid_update_body_stable\<close>)
  then show ?thesis by simp
qed

lemma correction_body_shape:
  assumes "correction_body c h = Some h'"
  shows "\<exists>v p k. h' = h(v := setPosition p (Player_updateCollision k (h v))) \<or>
                 h' = h(v := setPosition p (Bounce_updateCollision k (h v)))"
proof (cases "btype (h (colA c)) = PLAYER \<or> btype (h (colA c)) = BOUNCE")
  case True
  then show ?thesis
    using assms unfolding correction_body_def Let_def
    by (simp split: body_type.splits) blast+
next
  case False
  then show ?thesis
    using assms unfolding correction_body_def Let_def
    by (simp split: body_type.splits) blast+
qed

lemma correction_body_stable:
  assumes "engine_stable P" "P (h a)" "correction_body c h = Some h'"
  shows "P (h' a)"
  using correction_body_shape[OF assms(3)] assms(1,2)
  by (auto simp: engine_stable_def)

lemma correctionPositions_stable:
  assumes "engine_stable P" "P (h a)" "correctionPositions cs h = Some h'"
  shows "P (h' a)"
  by (rule forEach_invariant[OF assms(3)[unfolded correctionPositions_def], where I="\<lambda>h. P (h a)"])
     (use assms in \<open>auto intro: correction_body_stable\<close>)

lemma afterUpdate_stable:
  assumes "engine_stable P" "P (h a)"
  shows "P (afterUpdate bs h a)"
  unfolding afterUpdate_def
  by (rule fold_invariant[where I="\<lambda>h. P (h a)"])
     (use assms in \<open>auto simp: afterUpdate_body_def engine_stable_def\<close>)

lemma World__update_stable:
  assumes "method_stable P" "P (heap w a)" "World__update delta w = Some (w', ss)"
  shows "P (heap w' a)"
proof -
  note es = method_stable_engine[OF assms(1)]
  obtain h1 rem1 s1 where 1:
    "updatePositions delta (bodies w) (wbounds w) (heap w, bodiesToRemove w, []) = (h1, rem1, s1)"
    by (metis prod_cases3)
  have p1: "P (h1 a)"
    using updatePositions_stable[where P=P and h="heap w" and a=a, OF es assms(2),
        of delta "bodies w" "wbounds w" "bodiesToRemove w" "[]"] 1
    by simp
  from assms(3) 1 obtain h2 bs2 g2 where 2: "removeBodies rem1 (h1, bodies w, broadphase w) = Some (h2, bs2, g2)"
    by (auto simp: World__update_def split: option.splits prod.splits)
  have p2: "P (h2 a)" by (rule removeBodies_stable[where P=P and h=h1 and a=a, OF assms(1) p1 2])
  from assms(3) 1 2 obtain h3 g3 where 3: "Grid_update bs2 (h2, g2) = Some (h3, g3)"
    by (auto simp: World__update_def split: option.splits prod.splits)
  have p3: "P (h3 a)" by (rule Grid_update_stable[where P=P and h=h2 and a=a, OF assms(1) p2 3])
  obtain rem4 cols s4 where 4: "detectCollisions h3 (pairs g3) ([], [], s1) = (rem4, cols, s4)"
    by (metis prod_cases3)
  from assms(3) 1 2 3 4 obtain h5 where 5: "correctionPositions cols h3 = Some h5"
    and w': "w' = w\<lparr>heap := afterUpdate bs2 h5, bodies := bs2, bodiesToRemove := rem4, broadphase := g3\<rparr>"
    by (auto simp: World__update_def split: option.splits prod.splits)
  have p5: "P (h5 a)" by (rule correctionPositions_stable[where P=P and h=h3 and a=a, OF es p3 5])
  show ?thesis unfolding w' using afterUpdate_stable[where P=P and h=h5 and a=a, OF es p5] by simp
qed


lemma update_loop_invariant:
  assumes run: "update_loop n d w ss = Some (Some (w', ss'))"
    and step: "\<And>sd v v' s. I v \<Longrightarrow> World__update sd v = Some (v', s) \<Longrightarrow> I v'"
    and init: "I w"
  shows "I w'"
proof -
  have "(\<lambda>n d w ss r. I w \<longrightarrow> (\<forall>w' ss'. r = Some (w', ss') \<longrightarrow> I w')) n d w ss (Some (w', ss'))"
  proof (rule update_loop.raw_induct[OF _ run])
    fix loop n d w ss r
    assume IH: "\<And>n d w ss r. loop n d w ss = Some r \<Longrightarrow> I w \<longrightarrow> (\<forall>w' ss'. r = Some (w', ss') \<longrightarrow> I w')"
      and body: "(if truthy n
          then let stepsCount' = n - Fin 1;
                   stepDelta = if d < maxDelta then d else maxDelta;
                   delta' = if d < maxDelta then d else d - maxDelta
               in case World__update stepDelta w of None \<Rightarrow> Some None
                  | Some (w', s) \<Rightarrow> loop stepsCount' delta' w' (ss @ s)
          else Some (Some (w, ss))) = Some r"
    show "I w \<longrightarrow> (\<forall>w' ss'. r = Some (w', ss') \<longrightarrow> I w')"
    proof (intro impI allI)
      fix w' ss'
      assume inv: "I w" and r: "r = Some (w', ss')"
      show "I w'"
      proof (cases "truthy n")
        case False
        then show ?thesis using body r inv by simp
      next
        case True
        from body True r obtain w1 s1
          where u: "World__update (if d < maxDelta then d else maxDelta) w = Some (w1, s1)"
            and l: "loop (n - Fin 1) (if d < maxDelta then d else d - maxDelta) w1 (ss @ s1) = Some r"
          by (auto simp: Let_def split: option.splits)
        have "I w1" by (rule step[OF inv u])
        then show ?thesis using IH[OF l] r by blast
      qed
    qed
  qed
  then show ?thesis using init by simp
qed


lemma World_update_stable:
  assumes "method_stable P" "\<forall>a. P (heap w a)" "World_update delta w = Some (Some (w', ss))"
  shows "P (heap w' a)"
proof -
  have "(\<lambda>v. \<forall>a. P (heap v a)) w'"
  proof (rule update_loop_invariant[OF assms(3)[unfolded World_update_def]])
    fix sd v v' s
    assume "\<forall>a. P (heap v a)" and "World__update sd v = Some (v', s)"
    then show "\<forall>a. P (heap v' a)"
      using World__update_stable[where P=P, OF assms(1)] by blast
  qed (rule assms(2))
  then show ?thesis by simp
qed

subsection \<open>Bounce bodies: the fix counters\<close>

lemma method_stable_cf: "method_stable cf_ok"
  unfolding method_stable_def cf_ok_def
  by (auto simp: Player_update_def Bounce_update_def Bullet_update_def Player_updateCollision_def
      Bounce_updateCollision_def setPosition_def updateBounds_def Bullet_updateBounds_def Let_def
      BOUNCE_FIXES_LIMIT_X_def BOUNCE_FIXES_LIMIT_Y_def
      split: option.splits)

lemma reachable_cf: "reachable w \<Longrightarrow> cf_ok (heap w a)"
proof (induction arbitrary: a rule: reachable.induct)
  case (init bnds)
  then show ?case by (simp add: World_def cf_ok_def blank_def)
next
  case (createBullet w x y f owner lol)
  then show ?case
    by (simp add: World_createBulletBody_def addNew_def cf_ok_def BodyBullet_def blank_def
        Bullet_updateBounds_def Let_def)
next
  case (createBounce w x y wd ht f)
  then show ?case
    by (simp add: World_createBounceBody_def addNew_def cf_ok_def BodyBounce_def blank_def
        updateBounds_def Let_def)
next
  case (createPlayer w x y wd ht speed jump)
  then show ?case
    by (simp add: World_createPlayerBody_def addNew_def cf_ok_def BodyPlayer_def blank_def
        updateBounds_def Let_def)
next
  case (createStatic w x y wd ht sensor)
  then show ?case
    by (simp add: World_createStaticBody_def addNew_def cf_ok_def BodyStatic_def blank_def Let_def)
next
  case (removeBody w a')
  then show ?case by (simp add: World_removeBody_def)
next
  case (update w delta w' ss)
  show ?case
    by (rule World_update_stable[OF method_stable_cf _ update(2)]) (simp add: update.IH)
next
  case (move w a' dir)
  then show ?case by (simp add: cf_ok_def Player_move_def Let_def)
next
  case (stop w a')
  then show ?case by (simp add: cf_ok_def Player_stop_def)
next
  case (jump w a')
  then show ?case by (simp add: cf_ok_def Player_jump_def Let_def)
next
  case (setPosition w a' p)
  then show ?case by (simp add: cf_ok_def setPosition_def)
qed

text \<open>
  C5: in every reachable world, both fix counters of every bounce body are at most 3
  (and never negative).
\<close>

theorem bounce_fix_counters_bounded:
  assumes "reachable w" and "btype (heap w a) = BOUNCE"
  shows "0 \<le> countCollisionsFixX (heap w a) \<and> countCollisionsFixX (heap w a) \<le> 3 \<and>
         0 \<le> countCollisionsFixY (heap w a) \<and> countCollisionsFixY (heap w a) \<le> 3"
  using reachable_cf[OF assms(1), of a] by (simp add: cf_ok_def)

lemma world_bounce_step:
  "map_option (\<lambda>r. (btype (heap (fst r) 2), countCollisionsFixX (heap (fst r) 2),
       countCollisionsFixY (heap (fst r) 2))) (World__update (Fin 16) world_bounce)
     = Some (BOUNCE, 1, 1)"
  by (simp add: world_bounce_def eval_defs)


lemma world_bounce_reachable: "reachable world_bounce"
  unfolding world_bounce_def by (intro reachable.createBounce reachable.createStatic reachable.init)

lemma world_bounce_after_reachable: "reachable world_bounce_after"
proof -
  obtain w ss where u: "World__update (Fin 16) world_bounce = Some (w, ss)"
    using world_bounce_step by (cases "World__update (Fin 16) world_bounce") auto
  have "World_update (Fin 16) world_bounce = Some (Some (w, ss))"
    using update_one_step[of 16 world_bounce] u by simp
  then have "reachable w" by (rule reachable.update[OF world_bounce_reachable])
  then show ?thesis by (simp add: world_bounce_after_def u)
qed

lemma world_bounce_after_eval:
  "btype (heap world_bounce_after 2) = BOUNCE \<and>
   countCollisionsFixX (heap world_bounce_after 2) = 1 \<and>
   countCollisionsFixY (heap world_bounce_after 2) = 1"
  using world_bounce_step
  by (cases "World__update (Fin 16) world_bounce") (auto simp: world_bounce_after_def)

theorem bounce_fix_counters_bounded_witness:
  "reachable world_bounce_after \<and> btype (heap world_bounce_after 2) = BOUNCE \<and>
   countCollisionsFixX (heap world_bounce_after 2) = 1 \<and>
   countCollisionsFixY (heap world_bounce_after 2) = 1"
  using bounce_fix_counters_bounded[OF world_bounce_after_reachable, of 2]
    world_bounce_after_reachable world_bounce_after_eval
  by simp

subsection \<open>The player's jump\<close>






subsection \<open>Bullets flying along an axis\<close>






subsection \<open>The removal queue after a step\<close>

lemma hitRemovals_append: "hitRemovals h (xs @ ys) = hitRemovals h xs @ hitRemovals h ys"
  by (simp add: hitRemovals_def)

lemma updatePositions_body_no_hit:
  "hitRemovals hh (snd (snd (updatePositions_body delta wb v s))) = hitRemovals hh (snd (snd s))"
  by (cases s)
     (auto simp: updatePositions_body_def Let_def hitRemovals_def
       split: if_splits body_type.splits prod.splits)

lemma updatePositions_no_hit:
  "hitRemovals hh (snd (snd (updatePositions delta bs wb (h, r, ss)))) = hitRemovals hh ss"
proof -
  have "(\<lambda>s. hitRemovals hh (snd (snd s)) = hitRemovals hh ss)
          (fold (updatePositions_body delta wb) bs (h, r, ss))"
    by (rule fold_invariant) (simp_all add: updatePositions_body_no_hit)
  then show ?thesis by (simp add: updatePositions_def)
qed

lemma hitRemovals_overlaps:
  "hitRemovals h (concat (map (\<lambda>kp. if c kp then [Overlap (f kp) (g kp)] else []) ps)) = []"
  by (induction ps) (auto simp: hitRemovals_def)

lemma detect_bullet_removals:
  "\<exists>new. snd (detect_bullet h bt (r, ss)) = ss @ new \<and>
         fst (detect_bullet h bt (r, ss)) = r @ hitRemovals h new"
  by (auto simp: detect_bullet_def Let_def hitRemovals_def split: option.splits)

lemma fold_detect_bullet_removals:
  "\<exists>new. snd (fold (detect_bullet h) bts (r, ss)) = ss @ new \<and>
         fst (fold (detect_bullet h) bts (r, ss)) = r @ hitRemovals h new"
proof (induction bts arbitrary: r ss)
  case Nil
  then show ?case by (simp add: hitRemovals_def)
next
  case (Cons bt bts)
  obtain n1 where 1: "snd (detect_bullet h bt (r, ss)) = ss @ n1"
    "fst (detect_bullet h bt (r, ss)) = r @ hitRemovals h n1"
    using detect_bullet_removals[of h bt r ss] by blast
  obtain n2 where 2:
    "snd (fold (detect_bullet h) bts (r @ hitRemovals h n1, ss @ n1)) = (ss @ n1) @ n2"
    "fst (fold (detect_bullet h) bts (r @ hitRemovals h n1, ss @ n1)) = (r @ hitRemovals h n1) @ hitRemovals h n2"
    using Cons.IH[of "r @ hitRemovals h n1" "ss @ n1"] by blast
  have e: "detect_bullet h bt (r, ss) = (r @ hitRemovals h n1, ss @ n1)"
    using 1 by (metis prod.collapse)
  show ?case
    by (rule exI[of _ "n1 @ n2"]) (simp add: e 2 hitRemovals_append)
qed

lemma detectCollisions_removals:
  assumes "hitRemovals h ss = []"
    and "detectCollisions h ps ([], [], ss) = (r', cs', ss')"
  shows "r' = hitRemovals h ss'"
proof -
  obtain bt cs1 ss1 where f: "fold (detect_pair h) ps ([], [], ss) = (bt, cs1, ss1)"
    by (metis prod_cases3)
  have ss1: "hitRemovals h ss1 = []"
    using pairs_classified_aux[of "[]" h ps "[]" ss 0] f assms(1)
    by (simp add: hitRemovals_append hitRemovals_overlaps)
  obtain new where n: "snd (fold (detect_bullet h) bt ([], ss1)) = ss1 @ new"
    "fst (fold (detect_bullet h) bt ([], ss1)) = [] @ hitRemovals h new"
    using fold_detect_bullet_removals[of h bt "[]" ss1] by blast
  from assms(2) f have "r' = fst (fold (detect_bullet h) bt ([], ss1))"
    and "ss' = snd (fold (detect_bullet h) bt ([], ss1))"
    by (auto simp: detectCollisions_def split: prod.splits)
  then show ?thesis using n ss1 by (simp add: hitRemovals_append)
qed

lemma method_stable_kind: "method_stable (\<lambda>b. btype b = t \<and> longOfLife b = l)"
  unfolding method_stable_def
  by (auto simp: Player_update_def Bounce_update_def Bullet_update_def Player_updateCollision_def
      Bounce_updateCollision_def setPosition_def updateBounds_def Bullet_updateBounds_def Let_def
      split: option.splits)

lemma hitRemovals_cong:
  assumes "\<And>a. btype (h' a) = btype (h a) \<and> longOfLife (h' a) = longOfLife (h a)"
  shows "hitRemovals h' ss = hitRemovals h ss"
proof -
  have "removalOf h' s = removalOf h s" for s
    by (cases s) (simp_all add: assms)
  then have "removalOf h' = removalOf h" by (rule ext)
  then show ?thesis by (simp add: hitRemovals_def)
qed

text \<open>
  C4, amended: stage 2 empties \<open>bodiesToRemove\<close>, and stage 4 fills it again. When the
  internal step returns, the queue holds exactly the bullets of the \<open>isHit\<close> records
  of this step that have no \<open>longOfLife\<close> or hit a static body, in the order of the
  records; they stay queued until stage 2 of the next sub-step.
\<close>

theorem queue_after_step:
  assumes "World__update delta w = Some (w', ss)"
  shows "bodiesToRemove w' = hitRemovals (heap w') ss"
proof -
  obtain h1 rem1 s1 where 1:
    "updatePositions delta (bodies w) (wbounds w) (heap w, bodiesToRemove w, []) = (h1, rem1, s1)"
    by (metis prod_cases3)
  from assms 1 obtain h2 bs2 g2 where 2: "removeBodies rem1 (h1, bodies w, broadphase w) = Some (h2, bs2, g2)"
    by (auto simp: World__update_def split: option.splits prod.splits)
  from assms 1 2 obtain h3 g3 where 3: "Grid_update bs2 (h2, g2) = Some (h3, g3)"
    by (auto simp: World__update_def split: option.splits prod.splits)
  obtain rem4 cols s4 where 4: "detectCollisions h3 (pairs g3) ([], [], s1) = (rem4, cols, s4)"
    by (metis prod_cases3)
  from assms 1 2 3 4 obtain h5 where 5: "correctionPositions cols h3 = Some h5"
    and w': "w' = w\<lparr>heap := afterUpdate bs2 h5, bodies := bs2, bodiesToRemove := rem4, broadphase := g3\<rparr>"
    and ss: "ss = s4"
    by (auto simp: World__update_def split: option.splits prod.splits)
  have s1: "hitRemovals h3 s1 = []"
    using updatePositions_no_hit[of h3 delta "bodies w" "wbounds w" "heap w" "bodiesToRemove w" "[]"] 1
    by (simp add: hitRemovals_def)
  have r4: "rem4 = hitRemovals h3 s4" by (rule detectCollisions_removals[OF s1 4])
  have k: "btype (afterUpdate bs2 h5 a) = btype (h3 a) \<and> longOfLife (afterUpdate bs2 h5 a) = longOfLife (h3 a)" for a
  proof -
    let ?P = "\<lambda>b. btype b = btype (h3 a) \<and> longOfLife b = longOfLife (h3 a)"
    have "?P (h5 a)"
      by (rule correctionPositions_stable[where P="?P" and h=h3 and a=a,
          OF method_stable_engine[OF method_stable_kind] _ 5]) simp
    then show ?thesis
      using afterUpdate_stable[where P="?P" and h=h5 and a=a,
          OF method_stable_engine[OF method_stable_kind]] by simp
  qed
  show ?thesis unfolding w' ss r4 using hitRemovals_cong[of "afterUpdate bs2 h5" h3 s4, OF k] by simp
qed

lemma world_bullet_step:
  "map_option (\<lambda>r. (bodiesToRemove (fst r), snd r)) (World__update (Fin 16) world_bullet)
     = Some ([2], [Hit 2 1 \<lparr>xc = Fin 450, yc = Fin 0\<rparr>])"
  by (simp add: world_bullet_def eval_defs)


lemma world_bullet_after_step:
  "World__update (Fin 16) world_bullet
     = Some (world_bullet_after, [Hit 2 1 \<lparr>xc = Fin 450, yc = Fin 0\<rparr>]) \<and>
   bodiesToRemove world_bullet_after = [2]"
  using world_bullet_step
  by (cases "World__update (Fin 16) world_bullet") (auto simp: world_bullet_after_def)

theorem queue_after_step_witness:
  "World__update (Fin 16) world_bullet
     = Some (world_bullet_after, [Hit 2 1 \<lparr>xc = Fin 450, yc = Fin 0\<rparr>]) \<and>
   bodiesToRemove world_bullet_after = [2] \<and>
   hitRemovals (heap world_bullet_after) [Hit 2 1 \<lparr>xc = Fin 450, yc = Fin 0\<rparr>] = [2]"
  using queue_after_step[of "Fin 16" world_bullet world_bullet_after
      "[Hit 2 1 \<lparr>xc = Fin 450, yc = Fin 0\<rparr>]"] world_bullet_after_step
  by simp

text \<open>
  C4, as stated, fails: one \<open>update(16)\<close> of the example world returns with the bullet
  that hit the static body still in \<open>bodiesToRemove\<close>.
\<close>

theorem queue_not_empty_after_update:
  "map_option (map_option (\<lambda>r. bodiesToRemove (fst r))) (World_update (Fin 16) world_bullet)
     = Some (Some [2])"
  using update_one_step[of 16 world_bullet] world_bullet_after_step by simp

subsection \<open>The nearest crossing\<close>

lemma jsnum_add_commute: "(a :: jsnum) + b = b + a"
  by (cases a; cases b) simp_all

lemma jsnum_le_less_trans: "(a :: jsnum) \<le> b \<Longrightarrow> b < c \<Longrightarrow> a < c"
  by (cases a; cases b; cases c) simp_all

lemma jsnum_less_imp_le: "(a :: jsnum) < b \<Longrightarrow> a \<le> b"
  by (cases a; cases b) simp_all

lemma jsnum_less_not_le: "(a :: jsnum) < b \<Longrightarrow> \<not> b \<le> a"
  by (cases a; cases b) simp_all

lemma probe_X:
  "handlingLineIntersect input a b lo hi (xc pp) (yc pp) AxisX AxisY tgt r =
     (case crossing input a b lo hi AxisX AxisY of
        None \<Rightarrow> r
      | Some p \<Rightarrow> take_nearer pp (p, tgt) r)"
  by (cases r)
     (auto simp: handlingLineIntersect_def crossing_def take_nearer_def manhattan_def Let_def
        vzero_def jsnum_add_commute)

lemma probe_Y:
  "handlingLineIntersect input a b lo hi (yc pp) (xc pp) AxisY AxisX tgt r =
     (case crossing input a b lo hi AxisY AxisX of
        None \<Rightarrow> r
      | Some p \<Rightarrow> take_nearer pp (p, tgt) r)"
  by (cases r)
     (auto simp: handlingLineIntersect_def crossing_def take_nearer_def manhattan_def Let_def
        vzero_def)

lemma probe_target_fold:
  "probe_target h bullet tgt r =
     fold (take_nearer (prevPosition (h bullet))) (crossings_of h bullet tgt) r"
  unfolding probe_target_def crossings_of_def Let_def probe_X probe_Y
  by (simp split: option.splits)

lemma probes_fold:
  "fold (probe_target h bullet) targets r =
     fold (take_nearer (prevPosition (h bullet))) (all_crossings h bullet targets) r"
  unfolding all_crossings_def
  by (induction targets arbitrary: r) (simp_all add: probe_target_fold)

lemma take_nearer_min:
  assumes "target r0 = None"
  shows "(target (fold (take_nearer pp) cs r0) = None \<longrightarrow>
            halfSumm (fold (take_nearer pp) cs r0) = halfSumm r0 \<and>
            (\<forall>c\<in>set cs. \<not> manhattan (fst c) pp < halfSumm r0))
       \<and> (\<forall>t. target (fold (take_nearer pp) cs r0) = Some t \<longrightarrow>
            (\<exists>pre post. cs = pre @ (point (fold (take_nearer pp) cs r0), t) # post \<and>
               halfSumm (fold (take_nearer pp) cs r0)
                 = manhattan (point (fold (take_nearer pp) cs r0)) pp \<and>
               (\<forall>c\<in>set pre. \<not> manhattan (fst c) pp \<le> halfSumm (fold (take_nearer pp) cs r0)) \<and>
               (\<forall>c\<in>set post. \<not> manhattan (fst c) pp < halfSumm (fold (take_nearer pp) cs r0))))"
proof (induction cs rule: rev_induct)
  case Nil
  then show ?case using assms by simp
next
  case (snoc c cs)
  let ?r = "fold (take_nearer pp) cs r0"
  let ?d = "manhattan (fst c) pp"
  show ?case
  proof (cases "?d < halfSumm ?r")
    case False
    then have e: "fold (take_nearer pp) (cs @ [c]) r0 = ?r" by (simp add: take_nearer_def)
    show ?thesis
    proof (cases "target ?r")
      case None
      then show ?thesis using snoc False unfolding e by auto
    next
      case (Some t)
      then obtain pre post where pp: "cs = pre @ (point ?r, t) # post"
        "halfSumm ?r = manhattan (point ?r) pp"
        "\<forall>c\<in>set pre. \<not> manhattan (fst c) pp \<le> halfSumm ?r"
        "\<forall>c\<in>set post. \<not> manhattan (fst c) pp < halfSumm ?r"
        using snoc by blast
      have 1: "cs @ [c] = pre @ (point ?r, t) # (post @ [c])" using pp(1) by simp
      have 2: "\<forall>c\<in>set (post @ [c]). \<not> manhattan (fst c) pp < halfSumm ?r"
        using pp(4) False by simp
      have "\<exists>pre post. cs @ [c] = pre @ (point ?r, t) # post \<and>
               halfSumm ?r = manhattan (point ?r) pp \<and>
               (\<forall>c\<in>set pre. \<not> manhattan (fst c) pp \<le> halfSumm ?r) \<and>
               (\<forall>c\<in>set post. \<not> manhattan (fst c) pp < halfSumm ?r)"
        using 1 2 pp(2,3) by blast
      then show ?thesis unfolding e using Some by simp
    qed
  next
    case True
    then have e: "fold (take_nearer pp) (cs @ [c]) r0
        = \<lparr>point = fst c, halfSumm = ?d, target = Some (snd c)\<rparr>"
      by (simp add: take_nearer_def)
    have before: "\<forall>c'\<in>set cs. \<not> manhattan (fst c') pp \<le> ?d"
    proof
      fix c' assume c': "c' \<in> set cs"
      show "\<not> manhattan (fst c') pp \<le> ?d"
      proof
        assume le: "manhattan (fst c') pp \<le> ?d"
        then have lt: "manhattan (fst c') pp < halfSumm ?r"
          using True by (rule jsnum_le_less_trans)
        show False
        proof (cases "target ?r")
          case None
          then show False using snoc c' lt by auto
        next
          case (Some t)
          define q where "q = point ?r"
          from Some obtain pre post where pp: "cs = pre @ (q, t) # post"
            "halfSumm ?r = manhattan q pp"
            "\<forall>c\<in>set pre. \<not> manhattan (fst c) pp \<le> halfSumm ?r"
            "\<forall>c\<in>set post. \<not> manhattan (fst c) pp < halfSumm ?r"
            using snoc unfolding q_def by blast
          have "set cs = set pre \<union> {(q, t)} \<union> set post"
            by (subst pp(1)) simp
          with c' consider "c' \<in> set pre" | "c' = (q, t)" | "c' \<in> set post" by blast
          then show False
          proof cases
            case 1
            then show False using pp(3) jsnum_less_imp_le[OF lt] by blast
          next
            case 2
            then show False using lt pp(2) jsnum_less_not_le[OF lt] jsnum_less_imp_le[OF lt] by simp
          next
            case 3
            then show False using pp(4) lt by blast
          qed
        qed
      qed
    qed
    have "\<exists>pre post. cs @ [c] = pre @ (fst c, snd c) # post \<and>
             (\<forall>c'\<in>set pre. \<not> manhattan (fst c') pp \<le> ?d) \<and>
             (\<forall>c'\<in>set post. \<not> manhattan (fst c') pp < ?d)"
      by (rule exI[of _ cs], rule exI[of _ "[]"]) (simp add: before)
    then show ?thesis unfolding e by simp
  qed
qed

text \<open>
  C6: the point of an \<open>isHit\<close> record of a bullet is one of the accepted crossings
  of the bullet's targets; no crossing before it in probe order is as near to
  \<open>prevPosition\<close> (in Manhattan distance) and no crossing after it is nearer.
\<close>

theorem nearest_crossing_wins:
  assumes "snd (detect_bullet h (bullet, targets) (rem, ss)) = ss @ [Hit b t p]"
  shows "b = bullet \<and>
    (\<exists>pre post. all_crossings h bullet targets = pre @ (p, t) # post \<and>
       (\<forall>c\<in>set pre. \<not> manhattan (fst c) (prevPosition (h bullet))
                          \<le> manhattan p (prevPosition (h bullet))) \<and>
       (\<forall>c\<in>set post. \<not> manhattan (fst c) (prevPosition (h bullet))
                          < manhattan p (prevPosition (h bullet))))"
proof -
  let ?pp = "prevPosition (h bullet)"
  let ?r = "fold (take_nearer ?pp) (all_crossings h bullet targets) hitResult0"
  have r: "fold (probe_target h bullet) targets hitResult0 = ?r" by (rule probes_fold)
  from assms have t: "target ?r = Some t" and b: "b = bullet" and p: "p = point ?r"
    by (auto simp: detect_bullet_def Let_def r split: option.splits)
  have "target hitResult0 = None" by (simp add: hitResult0_def)
  from take_nearer_min[OF this, of ?pp "all_crossings h bullet targets"] t
  obtain pre post where "all_crossings h bullet targets = pre @ (point ?r, t) # post"
    "halfSumm ?r = manhattan (point ?r) ?pp"
    "\<forall>c\<in>set pre. \<not> manhattan (fst c) ?pp \<le> halfSumm ?r"
    "\<forall>c\<in>set post. \<not> manhattan (fst c) ?pp < halfSumm ?r"
    by blast
  then show ?thesis using b p by auto
qed


theorem nearest_crossing_wins_witness:
  "snd (detect_bullet (heap world_bullet) (2, [1]) ([], []))
     = [] @ [Hit 2 1 \<lparr>xc = Fin 450, yc = Fin 0\<rparr>] \<and>
   all_crossings (heap world_bullet) 2 [1]
     = [] @ (\<lparr>xc = Fin 450, yc = Fin 0\<rparr>, 1) # [(\<lparr>xc = Fin 550, yc = Fin 0\<rparr>, 1)] \<and>
   manhattan \<lparr>xc = Fin 450, yc = Fin 0\<rparr> (prevPosition (heap world_bullet 2)) = Fin 10 \<and>
   manhattan \<lparr>xc = Fin 550, yc = Fin 0\<rparr> (prevPosition (heap world_bullet 2)) = Fin 110"
proof -
  have e: "snd (detect_bullet (heap world_bullet) (2, [1]) ([], []))
      = [] @ [Hit 2 1 \<lparr>xc = Fin 450, yc = Fin 0\<rparr>]"
    by (simp add: world_bullet_def eval_defs)
  show ?thesis
    using nearest_crossing_wins[OF e] e
    by (simp add: world_bullet_def all_crossings_def crossings_of_def crossing_def
        manhattan_def eval_defs)
qed

subsection \<open>Keys of regions and pairs\<close>

lemma digit_inj: "d < 10 \<Longrightarrow> e < 10 \<Longrightarrow> digit d = digit e \<Longrightarrow> d = e"
  unfolding digit_def by (simp split: if_splits; arith)

lemma digit_not_sep: "digit d \<noteq> CHR '':'' \<and> digit d \<noteq> CHR ''-''"
  unfolding digit_def by simp

lemma digits_nonempty: "digits n \<noteq> []"
  by (subst digits.simps) simp

lemma digits_chars: "c \<in> set (digits n) \<Longrightarrow> c \<noteq> CHR '':'' \<and> c \<noteq> CHR ''-''"
proof (induction n rule: digits.induct)
  case (1 n)
  show ?case
  proof (cases "n < 10")
    case True
    then have "digits n = [digit n]" by (subst digits.simps) simp
    then show ?thesis using 1(2) digit_not_sep by simp
  next
    case False
    then have "digits n = digits (n div 10) @ [digit (n mod 10)]" by (subst digits.simps) simp
    then show ?thesis using 1(1)[OF False] 1(2) digit_not_sep by auto
  qed
qed

lemma digits_inj: "digits n = digits m \<Longrightarrow> n = m"
proof (induction n arbitrary: m rule: digits.induct)
  case (1 n)
  show ?case
  proof (cases "n < 10")
    case True
    then have n: "digits n = [digit n]" by (subst digits.simps) simp
    show ?thesis
    proof (cases "m < 10")
      case m: True
      then have "digits m = [digit m]" by (subst digits.simps) simp
      then show ?thesis using n 1(2) True m digit_inj by simp
    next
      case False
      then have "digits m = digits (m div 10) @ [digit (m mod 10)]" by (subst digits.simps) simp
      then show ?thesis using n 1(2) digits_nonempty[of "m div 10"] by simp
    qed
  next
    case False
    then have n: "digits n = digits (n div 10) @ [digit (n mod 10)]" by (subst digits.simps) simp
    show ?thesis
    proof (cases "m < 10")
      case True
      then have "digits m = [digit m]" by (subst digits.simps) simp
      then show ?thesis using n 1(2) digits_nonempty[of "n div 10"] by simp
    next
      case m: False
      then have "digits m = digits (m div 10) @ [digit (m mod 10)]" by (subst digits.simps) simp
      with n 1(2) have a: "digits (n div 10) = digits (m div 10)"
        and b: "digit (n mod 10) = digit (m mod 10)" by simp_all
      have "n div 10 = m div 10" by (rule 1(1)[OF False a])
      moreover have "n mod 10 = m mod 10" by (rule digit_inj[OF _ _ b]) simp_all
      ultimately show ?thesis by (metis div_mult_mod_eq)
    qed
  qed
qed

lemma toString_chars: "CHR '':'' \<notin> set (toString i)"
  using digits_chars by (auto simp: toString_def)

lemma digits_hd: "hd (digits n) \<noteq> CHR ''-''"
  using digits_chars[of "hd (digits n)" n] digits_nonempty[of n] by simp

lemma toString_inj: "toString i = toString j \<Longrightarrow> i = j"
proof -
  assume e: "toString i = toString j"
  show ?thesis
  proof (cases "i < 0"; cases "j < 0")
    assume "i < 0" "j < 0"
    then have "nat (- i) = nat (- j)" using e digits_inj by (simp add: toString_def)
    then show ?thesis using \<open>i < 0\<close> \<open>j < 0\<close> by simp
  next
    assume "i < 0" "\<not> j < 0"
    then have "CHR ''-'' # digits (nat (- i)) = digits (nat j)" using e by (simp add: toString_def)
    then show ?thesis using digits_hd[of "nat j"] by (metis list.sel(1))
  next
    assume "\<not> i < 0" "j < 0"
    then have "CHR ''-'' # digits (nat (- j)) = digits (nat i)" using e by (simp add: toString_def)
    then show ?thesis using digits_hd[of "nat i"] by (metis list.sel(1))
  next
    assume "\<not> i < 0" "\<not> j < 0"
    then have "nat i = nat j" using e digits_inj by (simp add: toString_def)
    then show ?thesis using \<open>\<not> i < 0\<close> \<open>\<not> j < 0\<close> by simp
  qed
qed

lemma key_inj:
  "toString i @ CHR '':'' # toString j = toString k @ CHR '':'' # toString l
     \<longleftrightarrow> i = k \<and> j = l"
  using toString_inj by (auto simp: append_Cons_eq_iff toString_chars)

lemma regionKey_inj: "regionKey cx cy = regionKey cx' cy' \<longleftrightarrow> cx = cx' \<and> cy = cy'"
  by (simp add: regionKey_def key_inj)

lemma getPairId_eq_iff:
  "getPairId a b = getPairId c d \<longleftrightarrow> (a = c \<and> b = d) \<or> (a = d \<and> b = c)"
  by (auto simp: getPairId_def key_inj)

lemma getPairId_commute: "getPairId a b = getPairId b a"
  by (simp add: getPairId_eq_iff)

lemma canCollide_commute: "canCollide h a b = canCollide h b a"
  by (auto simp: canCollide_def)

lemma distinct_grid:
  assumes "distinct xs" "distinct ys" "\<And>x y x' y'. f x y = f x' y' \<Longrightarrow> x = x' \<and> y = y'"
  shows "distinct (concat (map (\<lambda>y. map (\<lambda>x. f x y) xs) ys))"
  using assms(2)
proof (induction ys)
  case Nil
  then show ?case by simp
next
  case (Cons y ys)
  have "distinct (map (\<lambda>x. f x y) xs)"
    using assms(1,3) by (auto simp: distinct_map inj_on_def)
  moreover have "set (map (\<lambda>x. f x y) xs) \<inter> set (concat (map (\<lambda>y. map (\<lambda>x. f x y) xs) ys)) = {}"
    using Cons.prems assms(3) by auto
  ultimately show ?case using Cons by simp
qed

lemma getRegions_distinct: "distinct (getRegions bnds)"
  unfolding getRegions_def Let_def
  by (rule distinct_grid) (simp_all add: regionKey_inj)

subsection \<open>The pair table\<close>

lemma wf_D:
  "pairs_wf ps \<Longrightarrow> map_of ps k = Some p \<Longrightarrow>
     1 \<le> count p \<and> bodyA p \<noteq> bodyB p \<and> k = getPairId (bodyA p) (bodyB p)"
  by (simp add: pairs_wf_def)

lemma pcount_addPair:
  "pcount (addPair h a v ps) k =
     pcount ps k + (if v \<noteq> a \<and> canCollide h a v \<and> k = getPairId a v then 1 else 0)"
  by (auto simp: addPair_def pcount_def Let_def update_conv' split: option.splits)

lemma wf_addPair:
  assumes "pairs_wf ps"
  shows "pairs_wf (addPair h a v ps)"
  unfolding pairs_wf_def
proof (intro allI impI)
  fix k p
  assume m: "map_of (addPair h a v ps) k = Some p"
  show "1 \<le> count p \<and> bodyA p \<noteq> bodyB p \<and> k = getPairId (bodyA p) (bodyB p)"
  proof (cases "v = a \<or> \<not> canCollide h a v")
    case True
    then have "addPair h a v ps = ps" by (auto simp: addPair_def)
    then show ?thesis using m wf_D[OF assms, of k p] by simp
  next
    case False
    show ?thesis
    proof (cases "map_of ps (getPairId a v)")
      case None
      then show ?thesis
        using m False wf_D[OF assms, of k p]
        by (auto simp: addPair_def Let_def update_conv' split: if_splits)
    next
      case (Some q)
      then show ?thesis
        using m False wf_D[OF assms, of k p] wf_D[OF assms Some]
        by (auto simp: addPair_def Let_def update_conv' split: if_splits)
    qed
  qed
qed

lemma wf_fold_addPair: "pairs_wf ps \<Longrightarrow> pairs_wf (fold (addPair h a) l ps)"
  by (induction l arbitrary: ps) (simp_all add: wf_addPair)

lemma pcount_fold_addPair:
  "pcount (fold (addPair h a) l ps) k =
     pcount ps k + int (length (filter (\<lambda>v. v \<noteq> a \<and> canCollide h a v \<and> k = getPairId a v) l))"
  by (induction l arbitrary: ps) (simp_all add: pcount_addPair)

lemma pcount_nonneg: "pairs_wf ps \<Longrightarrow> 0 \<le> pcount ps k"
  using wf_D[of ps k] by (cases "map_of ps k") (auto simp: pcount_def)

lemma pcount_removePair:
  assumes "pairs_wf ps"
  shows "pcount (removePair a v ps) k =
     (if k = getPairId a v then max 0 (pcount ps k - 1) else pcount ps k)"
proof (cases "map_of ps (getPairId a v)")
  case None
  then show ?thesis by (auto simp: removePair_def pcount_def Let_def)
next
  case (Some q)
  then show ?thesis
    using wf_D[OF assms Some]
    by (auto simp: removePair_def pcount_def Let_def update_conv' delete_conv')
qed

lemma wf_removePair:
  assumes "pairs_wf ps"
  shows "pairs_wf (removePair a v ps)"
  unfolding pairs_wf_def
proof (intro allI impI)
  fix k p
  assume m: "map_of (removePair a v ps) k = Some p"
  show "1 \<le> count p \<and> bodyA p \<noteq> bodyB p \<and> k = getPairId (bodyA p) (bodyB p)"
  proof (cases "map_of ps (getPairId a v)")
    case None
    then show ?thesis using m wf_D[OF assms, of k p] by (auto simp: removePair_def Let_def)
  next
    case (Some q)
    then show ?thesis
      using m wf_D[OF assms, of k p] wf_D[OF assms Some]
      by (auto simp: removePair_def Let_def update_conv' delete_conv' split: if_splits)
  qed
qed

lemma wf_fold_removePair: "pairs_wf ps \<Longrightarrow> pairs_wf (fold (removePair a) l ps)"
  by (induction l arbitrary: ps) (simp_all add: wf_removePair)

lemma pcount_fold_removePair:
  "pairs_wf ps \<Longrightarrow>
   pcount (fold (removePair a) l ps) k =
     max 0 (pcount ps k - int (length (filter (\<lambda>v. k = getPairId a v) l)))"
proof (induction l arbitrary: ps)
  case Nil
  then show ?case using pcount_nonneg[of ps k] by simp
next
  case (Cons v l)
  have w: "pairs_wf (removePair a v ps)" by (rule wf_removePair[OF Cons.prems])
  show ?case
    using Cons.IH[OF w] pcount_removePair[OF Cons.prems, of a v k] pcount_nonneg[OF Cons.prems, of k]
    by auto
qed

subsection \<open>Counting occurrences\<close>

lemma length_filter_eq_distinct:
  "distinct l \<Longrightarrow> length (filter (\<lambda>v. v = b) l) = (if b \<in> set l then 1 else 0)"
  by (induction l) auto

lemma count_in_regions:
  assumes "distinct rs" "\<And>r. r \<in> set rs \<Longrightarrow> distinct (L r)"
  shows "length (filter (\<lambda>v. v = b) (concat (map L rs))) = card {r \<in> set rs. b \<in> set (L r)}"
  using assms
proof (induction rs)
  case Nil
  then show ?case by simp
next
  case (Cons r rs)
  have f: "finite {r' \<in> set rs. b \<in> set (L r')}" by simp
  have n: "r \<notin> {r' \<in> set rs. b \<in> set (L r')}" using Cons.prems(1) by simp
  have 1: "length (filter (\<lambda>v. v = b) (L r)) = (if b \<in> set (L r) then 1 else 0)"
    by (rule length_filter_eq_distinct) (simp add: Cons.prems(2))
  have 2: "length (filter (\<lambda>v. v = b) (concat (map L rs))) = card {r' \<in> set rs. b \<in> set (L r')}"
    using Cons by simp
  show ?case
  proof (cases "b \<in> set (L r)")
    case True
    then have "{r' \<in> set (r # rs). b \<in> set (L r')} = insert r {r' \<in> set rs. b \<in> set (L r')}"
      by auto
    then show ?thesis using 1 2 f n True by simp
  next
    case False
    then have "{r' \<in> set (r # rs). b \<in> set (L r')} = {r' \<in> set rs. b \<in> set (L r')}"
      by auto
    then show ?thesis using 1 2 False by simp
  qed
qed

subsection \<open>The region lists\<close>

lemma inRegion_bodiesIn: "inRegion g r a \<longleftrightarrow> a \<in> set (bodiesIn g r)"
  by (simp add: inRegion_def bodiesIn_def split: option.splits)

lemma bodiesIn_distinct: "hash_distinct g \<Longrightarrow> distinct (bodiesIn g r)"
  by (simp add: hash_distinct_def bodiesIn_def split: option.splits)

lemma inRegion_defined: "inRegion g r a \<Longrightarrow> hash g r \<noteq> None"
  by (auto simp: inRegion_def split: option.splits)

lemma inRegion_pairs_update [simp]: "inRegion (g\<lparr>pairs := ps\<rparr>) = inRegion g"
  by (intro ext) (simp add: inRegion_def)

lemma bodiesIn_pairs_update [simp]: "bodiesIn (g\<lparr>pairs := ps\<rparr>) = bodiesIn g"
  by (intro ext) (simp add: bodiesIn_def)

lemma hash_distinct_pairs_update [simp]: "hash_distinct (g\<lparr>pairs := ps\<rparr>) = hash_distinct g"
  by (simp add: hash_distinct_def)

lemma hashPush_pairs [simp]: "pairs (hashPush a r g) = pairs g"
  by (simp add: hashPush_def)

lemma inRegion_hashPush:
  "inRegion (hashPush a r g) r' x \<longleftrightarrow> inRegion g r' x \<or> (r' = r \<and> x = a)"
  by (auto simp: hashPush_def inRegion_def split: option.splits)

lemma fold_push_pairs [simp]: "pairs (fold (hashPush a) rs g) = pairs g"
  by (induction rs arbitrary: g) simp_all

lemma inRegion_fold_push:
  "inRegion (fold (hashPush a) rs g) r x \<longleftrightarrow> inRegion g r x \<or> (r \<in> set rs \<and> x = a)"
  by (induction rs arbitrary: g) (auto simp: inRegion_hashPush)

lemma hashPush_distinct:
  "hash_distinct g \<Longrightarrow> \<not> inRegion g r a \<Longrightarrow> hash_distinct (hashPush a r g)"
  by (auto simp: hash_distinct_def hashPush_def inRegion_def split: option.splits)

lemma fold_push_distinct:
  "hash_distinct g \<Longrightarrow> distinct rs \<Longrightarrow> (\<forall>r\<in>set rs. \<not> inRegion g r a) \<Longrightarrow>
     hash_distinct (fold (hashPush a) rs g)"
proof (induction rs arbitrary: g)
  case Nil
  then show ?case by simp
next
  case (Cons r rs)
  have 1: "hash_distinct (hashPush a r g)"
    using Cons.prems by (simp add: hashPush_distinct)
  have 2: "\<forall>r'\<in>set rs. \<not> inRegion (hashPush a r g) r' a"
    using Cons.prems by (auto simp: inRegion_hashPush)
  show ?case using Cons.IH[OF 1 _ 2] Cons.prems(2) by simp
qed

lemma spliceOut_pairs [simp]: "pairs (spliceOut a r g) = pairs g"
  by (simp add: spliceOut_def split: option.splits)

lemma inRegion_spliceOut:
  "hash_distinct g \<Longrightarrow>
     inRegion (spliceOut a r g) r' x \<longleftrightarrow> inRegion g r' x \<and> \<not> (r' = r \<and> x = a)"
  by (auto simp: spliceOut_def inRegion_def hash_distinct_def split: option.splits)

lemma spliceOut_distinct: "hash_distinct g \<Longrightarrow> hash_distinct (spliceOut a r g)"
  by (auto simp: spliceOut_def hash_distinct_def split: option.splits)

lemma spliceOut_defined: "hash (spliceOut a r g) r' = None \<longleftrightarrow> hash g r' = None"
  by (auto simp: spliceOut_def split: option.splits)

lemma fold_splice_pairs [simp]: "pairs (fold (spliceOut a) rs g) = pairs g"
  by (induction rs arbitrary: g) simp_all

lemma fold_splice_distinct: "hash_distinct g \<Longrightarrow> hash_distinct (fold (spliceOut a) rs g)"
  by (induction rs arbitrary: g) (simp_all add: spliceOut_distinct)

lemma inRegion_fold_splice:
  "hash_distinct g \<Longrightarrow>
     inRegion (fold (spliceOut a) rs g) r x \<longleftrightarrow> inRegion g r x \<and> \<not> (r \<in> set rs \<and> x = a)"
  by (induction rs arbitrary: g) (auto simp: inRegion_spliceOut spliceOut_distinct)

lemma fold_splice_defined: "hash (fold (spliceOut a) rs g) r = None \<longleftrightarrow> hash g r = None"
  by (induction rs arbitrary: g) (simp_all add: spliceOut_defined)

lemma forEach_splice:
  "(\<forall>r\<in>set rs. hash g r \<noteq> None) \<Longrightarrow>
   forEach (\<lambda>region g'.
       case hash g' region of
         None \<Rightarrow> None
       | Some l \<Rightarrow> Some (g'\<lparr>hash := (hash g')(region \<mapsto> remove1 a l)\<rparr>)) rs g
     = Some (fold (spliceOut a) rs g)"
proof (induction rs arbitrary: g)
  case Nil
  then show ?case by simp
next
  case (Cons r rs)
  from Cons.prems obtain l where l: "hash g r = Some l" by auto
  have "\<forall>r'\<in>set rs. hash (spliceOut a r g) r' \<noteq> None"
    using Cons.prems by (simp add: spliceOut_defined)
  from Cons.IH[OF this] show ?case using l by (simp add: spliceOut_def)
qed

lemma fold_splice_inline:
  "fold (\<lambda>region g'.
       case hash g' region of
         None \<Rightarrow> g'
       | Some l \<Rightarrow> g'\<lparr>hash := (hash g')(region \<mapsto> remove1 a l)\<rparr>) rs g
     = fold (spliceOut a) rs g"
proof -
  have "(\<lambda>region g'.
       case hash g' region of
         None \<Rightarrow> g'
       | Some l \<Rightarrow> g'\<lparr>hash := (hash g')(region \<mapsto> remove1 a l)\<rparr>) = spliceOut a"
    by (intro ext) (simp add: spliceOut_def)
  then show ?thesis by simp
qed

lemma forEach_pairs:
  "(\<forall>r\<in>set rs. hash g r \<noteq> None) \<Longrightarrow>
   forEach (\<lambda>region g'.
       case hash g' region of
         None \<Rightarrow> None
       | Some l \<Rightarrow> Some (g'\<lparr>pairs := fold f l (pairs g')\<rparr>)) rs g
     = Some (g\<lparr>pairs := fold f (concat (map (bodiesIn g) rs)) (pairs g)\<rparr>)"
proof (induction rs arbitrary: g)
  case Nil
  then show ?case by simp
next
  case (Cons r rs)
  from Cons.prems obtain l where l: "hash g r = Some l" by auto
  let ?g1 = "g\<lparr>pairs := fold f l (pairs g)\<rparr>"
  have "\<forall>r'\<in>set rs. hash ?g1 r' \<noteq> None" using Cons.prems by simp
  from Cons.IH[OF this] show ?case using l by (simp add: bodiesIn_def)
qed

lemma Grid_addPairs_Some:
  "(\<forall>r\<in>set rs. hash g r \<noteq> None) \<Longrightarrow>
   Grid_addPairs h a (Some rs) g
     = Some (g\<lparr>pairs := fold (addPair h a) (concat (map (bodiesIn g) rs)) (pairs g)\<rparr>)"
  unfolding Grid_addPairs_def by (simp add: forEach_pairs)

lemma Grid_removePairs_Some:
  "(\<forall>r\<in>set rs. hash g r \<noteq> None) \<Longrightarrow>
   Grid_removePairs h a (Some rs) g
     = Some (g\<lparr>pairs := fold (removePair a) (concat (map (bodiesIn g) rs)) (pairs g)\<rparr>)"
  unfolding Grid_removePairs_def by (simp add: forEach_pairs)

lemma Grid_addPairs_None:
  "regions (h a) = Some rs \<Longrightarrow> Grid_addPairs h a None g = Grid_addPairs h a (Some rs) g"
  by (simp add: Grid_addPairs_def)

lemma Grid_removePairs_None:
  "regions (h a) = Some rs \<Longrightarrow> Grid_removePairs h a None g = Grid_removePairs h a (Some rs) g"
  by (simp add: Grid_removePairs_def)

lemma filter_conj_const: "filter (\<lambda>v. c \<and> P v) l = (if c then filter P l else [])"
  by (cases c) simp_all

subsection \<open>Entering and leaving regions\<close>

lemma add_regions:
  assumes inv: "ginv R (canCollide h) g" and d: "distinct rs" and fresh: "set rs \<inter> R a = {}"
  shows "\<exists>g'. Grid_addPairs h a (Some rs) (fold (hashPush a) rs g) = Some g' \<and>
              ginv (R(a := R a \<union> set rs)) (canCollide h) g'"
proof -
  define g1 where "g1 = fold (hashPush a) rs g"
  define others where "others = concat (map (bodiesIn g1) rs)"
  define g' where "g' = g1\<lparr>pairs := fold (addPair h a) others (pairs g1)\<rparr>"
  let ?R' = "R(a := R a \<union> set rs)"
  from inv have hd: "hash_distinct g" and H2: "\<And>x r. inRegion g r x \<longleftrightarrow> r \<in> R x"
    and fin: "\<And>x. finite (R x)" and wf: "pairs_wf (pairs g)"
    and P3: "\<And>x y. x \<noteq> y \<Longrightarrow>
      pcount (pairs g) (getPairId x y) = (if canCollide h x y then int (card (R x \<inter> R y)) else 0)"
    by (simp_all add: ginv_def)
  have in1: "inRegion g1 r x \<longleftrightarrow> r \<in> R x \<or> (r \<in> set rs \<and> x = a)" for r x
    by (simp add: g1_def inRegion_fold_push H2)
  have def1: "\<forall>r\<in>set rs. hash g1 r \<noteq> None"
    using in1 inRegion_defined by blast
  have run: "Grid_addPairs h a (Some rs) g1 = Some g'"
    unfolding g'_def others_def by (rule Grid_addPairs_Some[OF def1])
  have hd1: "hash_distinct g1"
    unfolding g1_def using fresh by (intro fold_push_distinct hd d) (auto simp: H2)
  have in': "inRegion g' r x \<longleftrightarrow> r \<in> ?R' x" for r x
    using in1[of r x] by (auto simp: g'_def)
  have wf': "pairs_wf (pairs g')"
    by (simp add: g'_def g1_def wf wf_fold_addPair)
  have pc: "pcount (pairs g') k = pcount (pairs g) k
      + int (length (filter (\<lambda>v. v \<noteq> a \<and> canCollide h a v \<and> k = getPairId a v) others))" for k
    by (simp add: g'_def g1_def pcount_fold_addPair)
  have cnt: "int (length (filter (\<lambda>v. v = b) others)) = int (card (set rs \<inter> R b))" if "b \<noteq> a" for b
  proof -
    have "length (filter (\<lambda>v. v = b) others) = card {r \<in> set rs. b \<in> set (bodiesIn g1 r)}"
      unfolding others_def by (rule count_in_regions[OF d]) (rule bodiesIn_distinct[OF hd1])
    moreover have "{r \<in> set rs. b \<in> set (bodiesIn g1 r)} = set rs \<inter> R b"
      using in1 that by (auto simp: inRegion_bodiesIn[symmetric])
    ultimately show ?thesis by simp
  qed
  have grow: "int (card ((R a \<union> set rs) \<inter> R b)) = int (card (R a \<inter> R b)) + int (card (set rs \<inter> R b))" for b
  proof -
    have "(R a \<union> set rs) \<inter> R b = (R a \<inter> R b) \<union> (set rs \<inter> R b)" by blast
    moreover have "(R a \<inter> R b) \<inter> (set rs \<inter> R b) = {}" using fresh by blast
    ultimately show ?thesis using fin by (simp add: card_Un_disjoint)
  qed
  have P3': "pcount (pairs g') (getPairId x y)
      = (if canCollide h x y then int (card (?R' x \<inter> ?R' y)) else 0)" if xy: "x \<noteq> y" for x y
  proof -
    consider "x = a" | "y = a" "x \<noteq> a" | "x \<noteq> a" "y \<noteq> a" by blast
    then show ?thesis
    proof cases
      case 1
      then have ya: "y \<noteq> a" using xy by simp
      have "(\<lambda>v. v \<noteq> a \<and> canCollide h a v \<and> getPairId a y = getPairId a v)
          = (\<lambda>v. canCollide h a y \<and> v = y)"
        using ya by (auto simp: getPairId_eq_iff)
      then show ?thesis
        using pc[of "getPairId a y"] P3[of a y] ya cnt[OF ya] grow[of y] 1
        by (simp add: filter_conj_const)
    next
      case 2
      have "(\<lambda>v. v \<noteq> a \<and> canCollide h a v \<and> getPairId x a = getPairId a v)
          = (\<lambda>v. canCollide h x a \<and> v = x)"
        using 2 by (auto simp: getPairId_eq_iff canCollide_commute[of h a x])
      then show ?thesis
        using pc[of "getPairId x a"] P3[of x a] 2 cnt[OF 2(2)] grow[of x]
        by (simp add: filter_conj_const Int_commute)
    next
      case 3
      have "(\<lambda>v. v \<noteq> a \<and> canCollide h a v \<and> getPairId x y = getPairId a v) = (\<lambda>v. False)"
        using 3 by (auto simp: getPairId_eq_iff)
      then show ?thesis using pc[of "getPairId x y"] P3[OF xy] 3 by simp
    qed
  qed
  have "ginv ?R' (canCollide h) g'"
    unfolding ginv_def using in' wf' P3' fin hd1 by (simp add: g'_def)
  then show ?thesis using run unfolding g1_def by blast
qed

lemma remove_regions:
  assumes inv: "ginv R cc g" and d: "distinct rs" and sub: "set rs \<subseteq> R a"
  shows "\<exists>g'. Grid_removePairs h a (Some rs) (fold (spliceOut a) rs g) = Some g' \<and>
              ginv (R(a := R a - set rs)) cc g'"
    and "\<forall>r\<in>set rs. hash g r \<noteq> None"
proof -
  define g1 where "g1 = fold (spliceOut a) rs g"
  define others where "others = concat (map (bodiesIn g1) rs)"
  define g' where "g' = g1\<lparr>pairs := fold (removePair a) others (pairs g1)\<rparr>"
  let ?R' = "R(a := R a - set rs)"
  from inv have hd: "hash_distinct g" and H2: "\<And>x r. inRegion g r x \<longleftrightarrow> r \<in> R x"
    and fin: "\<And>x. finite (R x)" and wf: "pairs_wf (pairs g)"
    and P3: "\<And>x y. x \<noteq> y \<Longrightarrow>
      pcount (pairs g) (getPairId x y) = (if cc x y then int (card (R x \<inter> R y)) else 0)"
    by (simp_all add: ginv_def)
  show def0: "\<forall>r\<in>set rs. hash g r \<noteq> None"
    using sub H2 inRegion_defined by blast
  have in1: "inRegion g1 r x \<longleftrightarrow> r \<in> R x \<and> \<not> (r \<in> set rs \<and> x = a)" for r x
    by (simp add: g1_def inRegion_fold_splice[OF hd] H2)
  have def1: "\<forall>r\<in>set rs. hash g1 r \<noteq> None"
    using def0 by (simp add: g1_def fold_splice_defined)
  have run: "Grid_removePairs h a (Some rs) g1 = Some g'"
    unfolding g'_def others_def by (rule Grid_removePairs_Some[OF def1])
  have hd1: "hash_distinct g1"
    unfolding g1_def by (rule fold_splice_distinct[OF hd])
  have in': "inRegion g' r x \<longleftrightarrow> r \<in> ?R' x" for r x
    using in1[of r x] by (auto simp: g'_def)
  have wf': "pairs_wf (pairs g')"
    by (simp add: g'_def g1_def wf wf_fold_removePair)
  have pc: "pcount (pairs g') k
      = max 0 (pcount (pairs g) k - int (length (filter (\<lambda>v. k = getPairId a v) others)))" for k
    using pcount_fold_removePair[OF wf, of a others k] by (simp add: g'_def g1_def)
  have cnt: "int (length (filter (\<lambda>v. v = b) others)) = int (card (set rs \<inter> R b))" if "b \<noteq> a" for b
  proof -
    have "length (filter (\<lambda>v. v = b) others) = card {r \<in> set rs. b \<in> set (bodiesIn g1 r)}"
      unfolding others_def by (rule count_in_regions[OF d]) (rule bodiesIn_distinct[OF hd1])
    moreover have "{r \<in> set rs. b \<in> set (bodiesIn g1 r)} = set rs \<inter> R b"
      using in1 that by (auto simp: inRegion_bodiesIn[symmetric])
    ultimately show ?thesis by simp
  qed
  have shrink: "int (card (R a \<inter> R b)) = int (card ((R a - set rs) \<inter> R b)) + int (card (set rs \<inter> R b))" for b
  proof -
    have "R a \<inter> R b = ((R a - set rs) \<inter> R b) \<union> (set rs \<inter> R b)" using sub by blast
    moreover have "((R a - set rs) \<inter> R b) \<inter> (set rs \<inter> R b) = {}" by blast
    moreover have "finite ((R a - set rs) \<inter> R b)" "finite (set rs \<inter> R b)" using fin by simp_all
    ultimately show ?thesis by (metis card_Un_disjoint of_nat_add)
  qed
  have P3': "pcount (pairs g') (getPairId x y)
      = (if cc x y then int (card (?R' x \<inter> ?R' y)) else 0)" if xy: "x \<noteq> y" for x y
  proof -
    consider "x = a" | "y = a" "x \<noteq> a" | "x \<noteq> a" "y \<noteq> a" by blast
    then show ?thesis
    proof cases
      case 1
      then have ya: "y \<noteq> a" using xy by simp
      have "(\<lambda>v. getPairId a y = getPairId a v) = (\<lambda>v. v = y)"
        using ya by (auto simp: getPairId_eq_iff)
      then show ?thesis
        using pc[of "getPairId a y"] P3[of a y] ya cnt[OF ya] shrink[of y] 1
        by simp
    next
      case 2
      have "(\<lambda>v. getPairId x a = getPairId a v) = (\<lambda>v. v = x)"
        using 2 by (auto simp: getPairId_eq_iff)
      then show ?thesis
        using pc[of "getPairId x a"] P3[of x a] 2 cnt[OF 2(2)] shrink[of x]
        by (simp add: Int_commute)
    next
      case 3
      have "(\<lambda>v. getPairId x y = getPairId a v) = (\<lambda>v. False)"
        using 3 by (auto simp: getPairId_eq_iff)
      then show ?thesis using pc[of "getPairId x y"] P3[OF xy] 3 by simp
    qed
  qed
  have "ginv ?R' cc g'"
    unfolding ginv_def using in' wf' P3' fin hd1 by (simp add: g'_def)
  then show "\<exists>g'. Grid_removePairs h a (Some rs) (fold (spliceOut a) rs g) = Some g' \<and>
              ginv (R(a := R a - set rs)) cc g'"
    using run unfolding g1_def by blast
qed

subsection \<open>The grid operations keep the invariant\<close>

lemma regs_upd:
  "regs (h(a := b)) = (regs h)(a := (case regions b of None \<Rightarrow> {} | Some rs \<Rightarrow> set rs))"
  by (intro ext) (simp add: regs_def)

lemma canCollide_upd:
  "btype b = btype (h a) \<Longrightarrow> ownerId b = ownerId (h a) \<Longrightarrow>
     canCollide (h(a := b)) = canCollide h"
  by (intro ext) (simp add: canCollide_def)

lemma grid_inv_mutate:
  assumes inv: "grid_inv h g"
    and same: "\<forall>a. regions (h' a) = regions (h a) \<and>
          (regions (h a) \<noteq> None \<longrightarrow>
             btype (h' a) = btype (h a) \<and> ownerId (h' a) = ownerId (h a))"
  shows "grid_inv h' g"
proof -
  have r: "regs h' = regs h" using same by (intro ext) (simp add: regs_def)
  have cc: "canCollide h' x y = canCollide h x y \<or> regs h x \<inter> regs h y = {}" for x y
  proof (cases "regions (h x) = None \<or> regions (h y) = None")
    case True
    then show ?thesis by (auto simp: regs_def)
  next
    case False
    then show ?thesis using same by (simp add: canCollide_def)
  qed
  have "pcount (pairs g) (getPairId x y)
      = (if canCollide h' x y then int (card (regs h x \<inter> regs h y)) else 0)" if "x \<noteq> y" for x y
    using inv that cc[of x y] by (auto simp: grid_inv_def ginv_def)
  then show ?thesis using inv same unfolding grid_inv_def ginv_def r by simp
qed

lemma Grid_addBody_inv:
  assumes inv: "grid_inv h g" and un: "regions (h a) = None"
  shows "\<exists>h' g'. Grid_addBody a (h, g) = Some (h', g') \<and> grid_inv h' g'"
proof -
  define rs where "rs = getRegions (bounds (h a))"
  define b2 where "b2 = (if btype ((h a)\<lparr>regions := Some rs\<rparr>) \<noteq> STATIC
      then (h a)\<lparr>regions := Some rs\<rparr>\<lparr>regionsString := Some (join rs)\<rparr>
      else (h a)\<lparr>regions := Some rs\<rparr>)"
  define h' where "h' = h(a := b2)"
  have e: "Grid_addBody a (h, g) =
      (case Grid_addPairs h' a None (fold (hashPush a) rs g) of
         None \<Rightarrow> None | Some g2 \<Rightarrow> Some (h', g2))"
    unfolding Grid_addBody_def Let_def h'_def b2_def rs_def by simp
  have b2: "regions b2 = Some rs" "btype b2 = btype (h a)" "ownerId b2 = ownerId (h a)"
    by (simp_all add: b2_def)
  have cc: "canCollide h' = canCollide h" unfolding h'_def by (rule canCollide_upd) (simp_all add: b2)
  have d: "distinct rs" by (simp add: rs_def getRegions_distinct)
  have Ra: "regs h a = {}" using un by (simp add: regs_def)
  from inv have gi: "ginv (regs h) (canCollide h') g" by (simp add: grid_inv_def cc)
  have fresh: "set rs \<inter> regs h a = {}" by (simp add: Ra)
  from add_regions[OF gi d fresh] obtain g' where
    run: "Grid_addPairs h' a (Some rs) (fold (hashPush a) rs g) = Some g'"
    and gi': "ginv ((regs h)(a := regs h a \<union> set rs)) (canCollide h') g'"
    by blast
  have r': "regs h' = (regs h)(a := regs h a \<union> set rs)"
    unfolding h'_def regs_upd by (simp add: b2 Ra)
  have ha: "regions (h' a) = Some rs" by (simp add: h'_def b2)
  have "Grid_addPairs h' a None (fold (hashPush a) rs g) = Some g'"
    using run by (simp add: Grid_addPairs_None[where h=h' and a=a and rs=rs, OF ha])
  then have "Grid_addBody a (h, g) = Some (h', g')" by (simp add: e)
  moreover have "\<forall>x rs'. regions (h' x) = Some rs' \<longrightarrow> distinct rs'"
    using inv d by (auto simp: grid_inv_def h'_def b2)
  then have "grid_inv h' g'"
    using gi' unfolding grid_inv_def r' by simp
  ultimately show ?thesis by blast
qed

lemma Grid_updateBody_inv:
  assumes inv: "grid_inv h g" and old: "regions (h a) = Some old" and dn: "distinct new"
  shows "\<exists>h' g'. Grid_updateBody a new rString (h, g) = Some (h', g') \<and> grid_inv h' g'"
proof -
  define tr where "tr = filter (\<lambda>v. v \<notin> set new) old"
  define ta where "ta = filter (\<lambda>v. v \<notin> set old) new"
  define h' where "h' = h(a := (h a)\<lparr>regions := Some new, regionsString := Some rString\<rparr>)"
  from inv old have "distinct old" by (auto simp: grid_inv_def)
  then have dtr: "distinct tr" by (simp add: tr_def)
  have dta: "distinct ta" using dn by (simp add: ta_def)
  have Ra: "regs h a = set old" using old by (simp add: regs_def)
  from inv have gi: "ginv (regs h) (canCollide h) g" by (simp add: grid_inv_def)
  have sub: "set tr \<subseteq> regs h a" by (auto simp: tr_def Ra)
  from remove_regions(1)[OF gi dtr sub, where h=h] obtain g2 where
    run1: "Grid_removePairs h a (Some tr) (fold (spliceOut a) tr g) = Some g2"
    and gi2: "ginv ((regs h)(a := regs h a - set tr)) (canCollide h) g2"
    by blast
  have df: "\<forall>r\<in>set tr. hash g r \<noteq> None"
    by (rule remove_regions(2)[OF gi dtr sub])
  have phase1: "(if tr \<noteq> []
       then (case forEach (\<lambda>region g'.
                    case hash g' region of
                      None \<Rightarrow> None
                    | Some l \<Rightarrow> Some (g'\<lparr>hash := (hash g')(region \<mapsto> remove1 a l)\<rparr>)) tr g of
               None \<Rightarrow> None
             | Some g1 \<Rightarrow> Grid_removePairs h a (Some tr) g1)
       else Some g) = Some g2"
  proof (cases "tr = []")
    case True
    then show ?thesis using run1 by (simp add: Grid_removePairs_def)
  next
    case False
    then show ?thesis using run1 by (simp add: forEach_splice[OF df])
  qed
  let ?R2 = "(regs h)(a := regs h a - set tr)"
  have fresh: "set ta \<inter> ?R2 a = {}" by (auto simp: ta_def Ra)
  from add_regions[OF gi2 dta fresh] obtain g3 where
    run2: "Grid_addPairs h a (Some ta) (fold (hashPush a) ta g2) = Some g3"
    and gi3: "ginv (?R2(a := ?R2 a \<union> set ta)) (canCollide h) g3"
    by blast
  have phase2: "(if ta \<noteq> [] then Grid_addPairs h a (Some ta) (fold (hashPush a) ta g2)
       else Some g2) = Some g3"
  proof (cases "ta = []")
    case True
    then show ?thesis using run2 by (simp add: Grid_addPairs_def)
  next
    case False
    then show ?thesis using run2 by simp
  qed
  have "?R2 a \<union> set ta = set new" by (auto simp: tr_def ta_def Ra)
  then have r': "regs h' = ?R2(a := ?R2 a \<union> set ta)"
    unfolding h'_def regs_upd by simp
  have cc: "canCollide h' = canCollide h" unfolding h'_def by (rule canCollide_upd) simp_all
  have "Grid_updateBody a new rString (h, g) = Some (h', g3)"
    using phase1 phase2
    by (simp add: Grid_updateBody_def old Let_def tr_def[symmetric] ta_def[symmetric] h'_def)
  moreover have "grid_inv h' g3"
    using gi3 inv dn unfolding grid_inv_def r' cc by (auto simp: h'_def)
  ultimately show ?thesis by blast
qed

lemma Grid_removeBody_inv:
  assumes inv: "grid_inv h g"
  shows "\<exists>h' g'. Grid_removeBody a (h, g) = Some (h', g') \<and> grid_inv h' g'"
proof (cases "regions (h a)")
  case None
  then show ?thesis using inv by (simp add: Grid_removeBody_def)
next
  case (Some rs)
  define h' where "h' = h(a := (h a)\<lparr>regions := None, regionsString := None\<rparr>)"
  from inv Some have d: "distinct rs" by (auto simp: grid_inv_def)
  have Ra: "regs h a = set rs" using Some by (simp add: regs_def)
  from inv have gi: "ginv (regs h) (canCollide h) g" by (simp add: grid_inv_def)
  have sub: "set rs \<subseteq> regs h a" by (simp add: Ra)
  from remove_regions(1)[OF gi d sub, where h=h] obtain g2 where
    run: "Grid_removePairs h a (Some rs) (fold (spliceOut a) rs g) = Some g2"
    and gi2: "ginv ((regs h)(a := regs h a - set rs)) (canCollide h) g2"
    by blast
  have r': "regs h' = (regs h)(a := regs h a - set rs)"
    unfolding h'_def regs_upd by (simp add: Ra)
  have cc: "canCollide h' = canCollide h" unfolding h'_def by (rule canCollide_upd) simp_all
  have "Grid_removeBody a (h, g) = Some (h', g2)"
    using run Grid_removePairs_None[where h=h and a=a and rs=rs, OF Some]
    by (simp add: Grid_removeBody_def Some Let_def fold_splice_inline h'_def)
  moreover have "grid_inv h' g2"
    using gi2 inv unfolding grid_inv_def r' cc by (auto simp: h'_def)
  ultimately show ?thesis by blast
qed

lemma Grid_update_body_inv:
  assumes inv: "grid_inv h g"
  shows "\<exists>h' g'. Grid_update_body a (h, g) = Some (h', g') \<and> grid_inv h' g'"
proof (cases "regions (h a)")
  case None
  then show ?thesis using Grid_addBody_inv[OF inv None] by (simp add: Grid_update_body_def)
next
  case (Some old)
  show ?thesis
  proof (cases "btype (h a) = STATIC \<or> \<not> isUpdated (h a)")
    case True
    then show ?thesis using inv Some by (auto simp: Grid_update_body_def)
  next
    case False
    define h1 where "h1 = (if btype (h a) \<noteq> BULLET then h(a := (h a)\<lparr>isUpdated := False\<rparr>) else h)"
    have inv1: "grid_inv h1 g"
      by (rule grid_inv_mutate[OF inv]) (simp add: h1_def)
    have old1: "regions (h1 a) = Some old" using Some by (simp add: h1_def)
    define rs where "rs = getRegions (bounds (h1 a))"
    have d: "distinct rs" by (simp add: rs_def getRegions_distinct)
    have e: "Grid_update_body a (h, g) =
        (if Some (join rs) \<noteq> regionsString (h1 a)
         then Grid_updateBody a rs (join rs) (h1, g) else Some (h1, g))"
      using False Some by (simp add: Grid_update_body_def Let_def h1_def rs_def)
    show ?thesis
      unfolding e using Grid_updateBody_inv[OF inv1 old1 d, of "join rs"] inv1 by auto
  qed
qed

lemma forEach_total:
  assumes "I s" and "\<And>v t. I t \<Longrightarrow> \<exists>t'. f v t = Some t' \<and> I t'"
  shows "\<exists>s'. forEach f vs s = Some s' \<and> I s'"
  using assms(1)
proof (induction vs arbitrary: s)
  case Nil
  then show ?case by simp
next
  case (Cons v vs)
  from assms(2)[OF Cons.prems] obtain t where t: "f v s = Some t" "I t" by blast
  from Cons.IH[OF t(2)] show ?case using t(1) by simp
qed

lemma Grid_update_inv:
  assumes "grid_inv h g"
  shows "\<exists>h' g'. Grid_update bs (h, g) = Some (h', g') \<and> grid_inv h' g'"
proof -
  have "\<exists>s'. forEach Grid_update_body bs (h, g) = Some s' \<and> (\<lambda>s. grid_inv (fst s) (snd s)) s'"
  proof (rule forEach_total)
    show "grid_inv (fst (h, g)) (snd (h, g))" using assms by simp
  next
    fix v and t :: "(ref \<Rightarrow> body) \<times> grid"
    assume "grid_inv (fst t) (snd t)"
    then show "\<exists>t'. Grid_update_body v t = Some t' \<and> grid_inv (fst t') (snd t')"
      using Grid_update_body_inv[of "fst t" "snd t" v] by auto
  qed
  then show ?thesis by (auto simp: Grid_update_def)
qed

lemma grid_inv_init: "\<forall>a. regions (h a) = None \<Longrightarrow> grid_inv h Grid"
  by (simp add: grid_inv_def ginv_def regs_def Grid_def hash_distinct_def inRegion_def
      pairs_wf_def pcount_def)

lemma grid_reachable_inv: "grid_reachable s \<Longrightarrow> grid_inv (fst s) (snd s)"
proof (induction rule: grid_reachable.induct)
  case (init h)
  then show ?case by (simp add: grid_inv_init)
next
  case (update s bs s')
  then show ?case using Grid_update_inv[of "fst s" "snd s" bs] by auto
next
  case (removeBody s a s')
  then show ?case using Grid_removeBody_inv[of "fst s" "snd s" a] by auto
next
  case (mutate h g h')
  then show ?case using grid_inv_mutate[of h g h'] by simp
qed

lemma grid_inv_count:
  assumes inv: "grid_inv h g" and m: "map_of (pairs g) k = Some p"
  shows "count p = int (card {r. inRegion g r (bodyA p) \<and> inRegion g r (bodyB p)})"
proof -
  from inv have wf: "pairs_wf (pairs g)" and H2: "\<And>x r. inRegion g r x \<longleftrightarrow> r \<in> regs h x"
    and P3: "\<And>x y. x \<noteq> y \<Longrightarrow> pcount (pairs g) (getPairId x y)
        = (if canCollide h x y then int (card (regs h x \<inter> regs h y)) else 0)"
    by (simp_all add: grid_inv_def ginv_def)
  from wf_D[OF wf m] have c: "1 \<le> count p" and ne: "bodyA p \<noteq> bodyB p"
    and k: "k = getPairId (bodyA p) (bodyB p)" by simp_all
  have "pcount (pairs g) k = count p" using m by (simp add: pcount_def)
  with P3[OF ne] k c have "count p = int (card (regs h (bodyA p) \<inter> regs h (bodyB p)))"
    by (simp split: if_splits)
  moreover have "{r. inRegion g r (bodyA p) \<and> inRegion g r (bodyB p)}
      = regs h (bodyA p) \<inter> regs h (bodyB p)"
    using H2 by auto
  ultimately show ?thesis by simp
qed

text \<open>
  C1: in every reachable state of the grid, every pair present in \<open>pairs\<close> has a \<open>count\<close>
  equal to the number of region keys \<open>r\<close> such that both \<open>bodyA\<close> and \<open>bodyB\<close> of the pair
  appear in the list \<open>hash[r]\<close>. Registration, re-indexing on a change of regions and
  \<open>removeBody\<close> all keep the equality: the reachable states are closed under them.
\<close>

theorem pair_count_is_shared_regions:
  assumes "grid_reachable (h, g)" and "map_of (pairs g) k = Some p"
  shows "count p = int (card {r. inRegion g r (bodyA p) \<and> inRegion g r (bodyB p)})"
  using grid_inv_count[OF _ assms(2)] grid_reachable_inv[OF assms(1)] by simp

lemma grid_operations_return:
  assumes "grid_reachable s"
  shows "(\<exists>s'. Grid_update bs s = Some s') \<and> (\<exists>s'. Grid_removeBody a s = Some s')"
  using grid_reachable_inv[OF assms] Grid_update_inv[of "fst s" "snd s" bs]
    Grid_removeBody_inv[of "fst s" "snd s" a]
  by auto

lemma grid_example_eval:
  "Grid_update [1, 2] (heap world_bullet, Grid) = Some grid_example \<and>
   pairs (snd grid_example) = [(''1:2'', \<lparr>pid = ''1:2'', bodyA = 2, bodyB = 1, count = 1\<rparr>)]"
proof -
  have "map_option (\<lambda>s. pairs (snd s)) (Grid_update [1, 2] (heap world_bullet, Grid))
      = Some [(''1:2'', \<lparr>pid = ''1:2'', bodyA = 2, bodyB = 1, count = 1\<rparr>)]"
    by (simp add: world_bullet_def eval_defs)
  then show ?thesis
    by (cases "Grid_update [1, 2] (heap world_bullet, Grid)") (auto simp: grid_example_def)
qed

lemma grid_example_reachable: "grid_reachable (fst grid_example, snd grid_example)"
proof -
  have "grid_reachable (heap world_bullet, Grid)"
    by (rule grid_reachable.init) (simp add: world_bullet_def eval_defs)
  then have "grid_reachable grid_example"
    using grid_example_eval by (auto intro: grid_reachable.update)
  then show ?thesis by simp
qed

theorem pair_count_is_shared_regions_witness:
  "grid_reachable (fst grid_example, snd grid_example) \<and>
   map_of (pairs (snd grid_example)) ''1:2''
     = Some \<lparr>pid = ''1:2'', bodyA = 2, bodyB = 1, count = 1\<rparr> \<and>
   int (card {r. inRegion (snd grid_example) r 2 \<and> inRegion (snd grid_example) r 1}) = 1"
proof -
  have m: "map_of (pairs (snd grid_example)) ''1:2''
      = Some \<lparr>pid = ''1:2'', bodyA = 2, bodyB = 1, count = 1\<rparr>"
    using grid_example_eval by simp
  show ?thesis
    using pair_count_is_shared_regions[OF grid_example_reachable m] grid_example_reachable m
    by simp
qed

subsection \<open>The grid of a reachable world\<close>

lemma engine_stable_grid_fields:
  "engine_stable (\<lambda>b. regions b = r \<and> btype b = t \<and> ownerId b = ow)"
  unfolding engine_stable_def
  by (auto simp: Player_update_def Bounce_update_def Bullet_update_def Player_updateCollision_def
      Bounce_updateCollision_def setPosition_def updateBounds_def Bullet_updateBounds_def Let_def
      split: option.splits)

lemma grid_reachable_same:
  assumes "grid_reachable (h, g)"
    and "\<And>a. regions (h' a) = regions (h a) \<and> btype (h' a) = btype (h a) \<and>
           ownerId (h' a) = ownerId (h a)"
  shows "grid_reachable (h', g)"
  by (rule grid_reachable.mutate[OF assms(1)]) (simp add: assms(2))

lemma Grid_update_body_other:
  "Grid_update_body v (h, g) = Some (h', g') \<Longrightarrow> a \<noteq> v \<Longrightarrow> h' a = h a"
  by (auto simp: Grid_update_body_def Grid_addBody_def Grid_updateBody_def Let_def
      split: option.splits if_splits)

lemma Grid_update_other:
  assumes "Grid_update bs (h, g) = Some (h', g')" and "a \<notin> set bs"
  shows "h' a = h a"
proof -
  have "(\<lambda>s. fst s a = h a) (h', g')"
  proof (rule forEach_invariant[OF assms(1)[unfolded Grid_update_def]])
    show "fst (h, g) a = h a" by simp
  next
    fix v and t t' :: "(ref \<Rightarrow> body) \<times> grid"
    assume "v \<in> set bs" "fst t a = h a" "Grid_update_body v t = Some t'"
    then show "fst t' a = h a"
      using Grid_update_body_other[of v "fst t" "snd t" "fst t'" "snd t'" a] assms(2) by auto
  qed
  then show ?thesis by simp
qed

lemma Grid_removeBody_tail:
  "Grid_removeBody v (h, g) = Some (h', g') \<Longrightarrow> regions (h a) = None \<Longrightarrow> regions (h' a) = None"
  by (auto simp: Grid_removeBody_def Let_def split: option.splits if_splits)

lemma removeBodies_ok:
  assumes run: "removeBodies r (h, bs, g) = Some (h', bs', g')" and gr: "grid_reachable (h, g)"
  shows "grid_reachable (h', g') \<and> (\<forall>a. regions (h a) = None \<longrightarrow> regions (h' a) = None) \<and>
         set bs' \<subseteq> set bs"
proof -
  let ?I = "\<lambda>t. grid_reachable (fst t, snd (snd t)) \<and>
      (\<forall>a. regions (h a) = None \<longrightarrow> regions (fst t a) = None) \<and> set (fst (snd t)) \<subseteq> set bs"
  have "?I (h', bs', g')"
  proof (rule forEach_invariant[OF run[unfolded removeBodies_def]])
    show "?I (h, bs, g)" using gr by simp
  next
    fix v and t t' :: "(ref \<Rightarrow> body) \<times> ref list \<times> grid"
    assume i: "?I t" and s: "removeBodies_body v t = Some t'"
    obtain h1 b1 g1 where t: "t = (h1, b1, g1)" by (cases t)
    from s t obtain h2 g2 where 2: "Grid_removeBody v (h1, g1) = Some (h2, g2)"
      and t': "t' = (h2, remove1 v b1, g2)"
      by (auto simp: removeBodies_body_def split: option.splits)
    have "grid_reachable (h2, g2)"
      using grid_reachable.removeBody[OF _ 2] i t by simp
    moreover have "\<forall>a. regions (h a) = None \<longrightarrow> regions (h2 a) = None"
      using Grid_removeBody_tail[OF 2] i t by simp
    moreover have "set (remove1 v b1) \<subseteq> set bs"
      using i t set_remove1_subset[of v b1] by auto
    ultimately show "?I t'" by (simp add: t')
  qed
  then show ?thesis by simp
qed

lemma World__update_ok:
  assumes ok: "world_ok w" and run: "World__update delta w = Some (w', ss)"
  shows "world_ok w'"
proof -
  note es = engine_stable_grid_fields
  obtain h1 rem1 s1 where 1:
    "updatePositions delta (bodies w) (wbounds w) (heap w, bodiesToRemove w, []) = (h1, rem1, s1)"
    by (metis prod_cases3)
  have f1: "regions (h1 a) = regions (heap w a) \<and> btype (h1 a) = btype (heap w a) \<and>
      ownerId (h1 a) = ownerId (heap w a)" for a
    using updatePositions_stable[where P="\<lambda>b. regions b = regions (heap w a) \<and>
        btype b = btype (heap w a) \<and> ownerId b = ownerId (heap w a)" and h="heap w" and a=a,
        OF es, of delta "bodies w" "wbounds w" "bodiesToRemove w" "[]"] 1
    by simp
  from ok have g0: "grid_reachable (heap w, broadphase w)" by (simp add: world_ok_def)
  have g1: "grid_reachable (h1, broadphase w)" by (rule grid_reachable_same[OF g0 f1])
  from run 1 obtain h2 bs2 g2 where 2: "removeBodies rem1 (h1, bodies w, broadphase w) = Some (h2, bs2, g2)"
    by (auto simp: World__update_def split: option.splits prod.splits)
  note r2 = removeBodies_ok[OF 2 g1]
  from run 1 2 obtain h3 g3 where 3: "Grid_update bs2 (h2, g2) = Some (h3, g3)"
    by (auto simp: World__update_def split: option.splits prod.splits)
  have g3: "grid_reachable (h3, g3)" using grid_reachable.update[OF _ 3] r2 by simp
  obtain rem4 cols s4 where 4: "detectCollisions h3 (pairs g3) ([], [], s1) = (rem4, cols, s4)"
    by (metis prod_cases3)
  from run 1 2 3 4 obtain h5 where 5: "correctionPositions cols h3 = Some h5"
    and w': "w' = w\<lparr>heap := afterUpdate bs2 h5, bodies := bs2, bodiesToRemove := rem4, broadphase := g3\<rparr>"
    by (auto simp: World__update_def split: option.splits prod.splits)
  have f5: "regions (h5 a) = regions (h3 a) \<and> btype (h5 a) = btype (h3 a) \<and>
      ownerId (h5 a) = ownerId (h3 a)" for a
    using correctionPositions_stable[where P="\<lambda>b. regions b = regions (h3 a) \<and>
        btype b = btype (h3 a) \<and> ownerId b = ownerId (h3 a)" and h=h3 and a=a, OF es _ 5]
    by simp
  have f6: "regions (afterUpdate bs2 h5 a) = regions (h3 a) \<and>
      btype (afterUpdate bs2 h5 a) = btype (h3 a) \<and> ownerId (afterUpdate bs2 h5 a) = ownerId (h3 a)" for a
    using afterUpdate_stable[where P="\<lambda>b. regions b = regions (h3 a) \<and>
        btype b = btype (h3 a) \<and> ownerId b = ownerId (h3 a)" and h=h5 and a=a, OF es, of bs2] f5[of a]
    by simp
  have g6: "grid_reachable (afterUpdate bs2 h5, g3)" by (rule grid_reachable_same[OF g3 f6])
  have tail: "regions (afterUpdate bs2 h5 a) = None" if "nextId w \<le> a" for a
  proof -
    from ok that have "regions (heap w a) = None" and "a \<notin> set (bodies w)"
      by (auto simp: world_ok_def)
    with r2 f1[of a] have "regions (h2 a) = None" and "a \<notin> set bs2" by auto
    with Grid_update_other[OF 3, of a] f6[of a] show ?thesis by simp
  qed
  have "\<forall>a\<in>set bs2. a < nextId w" using r2 ok by (auto simp: world_ok_def)
  then show ?thesis using g6 tail by (simp add: world_ok_def w')
qed

lemma World_update_ok:
  assumes "world_ok w" and "World_update delta w = Some (Some (w', ss))"
  shows "world_ok w'"
  by (rule update_loop_invariant[OF assms(2)[unfolded World_update_def], where I=world_ok])
     (use assms(1) World__update_ok in auto)

lemma world_ok_method:
  assumes ok: "world_ok w"
    and f: "regions b = regions (heap w a) \<and> btype b = btype (heap w a) \<and>
            ownerId b = ownerId (heap w a)"
  shows "world_ok (w\<lparr>heap := (heap w)(a := b)\<rparr>)"
proof -
  from ok have "grid_reachable (heap w, broadphase w)" by (simp add: world_ok_def)
  then have "grid_reachable ((heap w)(a := b), broadphase w)"
    by (rule grid_reachable_same) (simp add: f)
  then show ?thesis using ok f by (simp add: world_ok_def)
qed

lemma world_ok_addNew:
  assumes ok: "world_ok w" and b: "regions b = None"
  shows "world_ok (snd (addNew b w))"
proof -
  from ok have g: "grid_reachable (heap w, broadphase w)"
    and t: "regions (heap w (nextId w)) = None" by (simp_all add: world_ok_def)
  have "grid_reachable ((heap w)(nextId w := b), broadphase w)"
    by (rule grid_reachable.mutate[OF g]) (simp add: b t)
  then show ?thesis using ok b by (auto simp: world_ok_def addNew_def)
qed

lemma reachable_world_ok: "reachable w \<Longrightarrow> world_ok w"
proof (induction rule: reachable.induct)
  case (init bnds)
  have "grid_reachable (\<lambda>a. blank, Grid)"
    by (rule grid_reachable.init) (simp add: blank_def)
  then show ?case by (simp add: world_ok_def World_def blank_def)
next
  case (createBullet w x y f owner lol)
  then show ?case
    unfolding World_createBulletBody_def
    by (intro world_ok_addNew) (simp_all add: BodyBullet_def Bullet_updateBounds_def Let_def blank_def)
next
  case (createBounce w x y wd ht f)
  then show ?case
    unfolding World_createBounceBody_def
    by (intro world_ok_addNew) (simp_all add: BodyBounce_def updateBounds_def Let_def blank_def)
next
  case (createPlayer w x y wd ht speed jump)
  then show ?case
    unfolding World_createPlayerBody_def
    by (intro world_ok_addNew) (simp_all add: BodyPlayer_def updateBounds_def Let_def blank_def)
next
  case (createStatic w x y wd ht sensor)
  then show ?case
    unfolding World_createStaticBody_def
    by (intro world_ok_addNew) (simp_all add: BodyStatic_def Let_def blank_def)
next
  case (removeBody w a)
  then show ?case by (simp add: world_ok_def World_removeBody_def)
next
  case (update w delta w' ss)
  then show ?case using World_update_ok by blast
next
  case (move w a dir)
  then show ?case by (intro world_ok_method) (simp_all add: Player_move_def Let_def)
next
  case (stop w a)
  then show ?case by (intro world_ok_method) (simp_all add: Player_stop_def)
next
  case (jump w a)
  then show ?case by (intro world_ok_method) (simp_all add: Player_jump_def Let_def)
next
  case (setPosition w a p)
  then show ?case by (intro world_ok_method) (simp_all add: setPosition_def)
qed

text \<open>
  The grid of a world built through the factories, \<open>removeBody\<close>, \<open>update\<close> and the
  bodies' public methods is a reachable state of the grid, so its pair counts agree with
  \<open>hash\<close> as well.
\<close>

lemma world_grid_reachable: "reachable w \<Longrightarrow> grid_reachable (heap w, broadphase w)"
  using reachable_world_ok by (simp add: world_ok_def)

lemma world_pair_counts:
  assumes "reachable w" and "map_of (pairs (broadphase w)) k = Some p"
  shows "count p = int (card {r. inRegion (broadphase w) r (bodyA p) \<and>
                                    inRegion (broadphase w) r (bodyB p)})"
  using grid_inv_count[OF _ assms(2)] grid_reachable_inv[OF world_grid_reachable[OF assms(1)]]
  by simp

end
